theory Spec2Isabelle
  imports Main "HOL-Library.AList"
begin

section \<open>Python strings\<close>

text \<open>
  Python \<open>str\<close> values are modelled as HOL strings. \<open>str.lower\<close> is modelled on the
  ASCII letters (every other character is left as it is), the pattern
  \<open>[^0-9a-zA-Z-]+\<close> of \<open>re.sub\<close> as the replacement of every maximal run of characters
  outside the class by one dash, and \<open>str(int)\<close> as the decimal rendering.
\<close>

definition ascii_digits :: string where
  "ascii_digits = ''0123456789''"

definition ascii_lowercase :: string where
  "ascii_lowercase = ''abcdefghijklmnopqrstuvwxyz''"

definition ascii_uppercase :: string where
  "ascii_uppercase = ''ABCDEFGHIJKLMNOPQRSTUVWXYZ''"

definition allowed_char :: "char \<Rightarrow> bool" where
  "allowed_char c \<longleftrightarrow> c \<in> set (ascii_digits @ ascii_lowercase @ ascii_uppercase @ ''-'')"

definition lower_char :: "char \<Rightarrow> char" where
  "lower_char c =
     (case map_of (zip ascii_uppercase ascii_lowercase) c of Some l \<Rightarrow> l | None \<Rightarrow> c)"

definition lower :: "string \<Rightarrow> string" where
  "lower s = map lower_char s"

function re_sub_dash :: "string \<Rightarrow> string" where
  "re_sub_dash [] = []"
| "re_sub_dash (c # cs) =
     (if allowed_char c then c # re_sub_dash cs
      else CHR ''-'' # re_sub_dash (dropWhile (\<lambda>d. \<not> allowed_char d) cs))"
  by pat_completeness auto
termination
  by (relation "measure length") (auto simp: length_dropWhile_le less_Suc_eq_le)

definition digit_char :: "nat \<Rightarrow> char" where
  "digit_char d = ascii_digits ! d"

function str_nat :: "nat \<Rightarrow> string" where
  "str_nat n = (if n < 10 then [digit_char n] else str_nat (n div 10) @ [digit_char (n mod 10)])"
  by pat_completeness auto
termination
  by (relation "measure id") auto

definition str_int :: "int \<Rightarrow> string" where
  "str_int i = (if i < 0 then CHR ''-'' # str_nat (nat (- i)) else str_nat (nat i))"

definition job_alphabet :: "char set" where
  "job_alphabet = set (ascii_digits @ ascii_lowercase @ ''-'')"



section \<open>Job names\<close>

text \<open>
  The job name of a component (\<open>_ComponentAsDoFn.__init__\<close>) and of the orchestrator
  (\<open>BeamDagRunner.run\<close>): the formatted string, lower-cased, then substituted. The
  timestamp is \<open>int(datetime.timestamp(datetime.now()))\<close>, an integer.
\<close>

definition component_job_name :: "string \<Rightarrow> string \<Rightarrow> int \<Rightarrow> string" where
  "component_job_name pipeline_name component ts =
     re_sub_dash (lower (pipeline_name @ ''-'' @ component @ ''-'' @ str_int ts))"

definition orchestrator_job_name :: "string \<Rightarrow> int \<Rightarrow> string" where
  "orchestrator_job_name pipeline_name ts =
     re_sub_dash (lower (pipeline_name @ ''-'' @ str_int ts))"


section \<open>Objects and the heap\<close>

text \<open>
  \<open>additional_pipeline_args\<close> is a dict that the pipeline and the execution units share by
  reference, and \<open>_ComponentAsDoFn.__init__\<close> copies and mutates such objects. The objects
  live in a heap, a list indexed by address; allocation appends. A dict has \<open>str\<close> keys, kept
  in insertion order, and references as values. A list holds \<open>str\<close> items, as
  \<open>beam_pipeline_args\<close> does. \<open>PyOther\<close> stands for an object that is neither (it has no
  \<open>copy\<close> and cannot be iterated).
\<close>

type_synonym addr = nat

datatype pyobj =
    PyDict "(string \<times> addr) list"
  | PyList "string list"
  | PyOther

type_synonym heap = "pyobj list"

datatype error = AttributeError | TypeError | AssertionError | LaunchError

text \<open>A Python reference always points to an object; an address outside the heap is read as \<open>PyOther\<close>.\<close>

definition deref :: "heap \<Rightarrow> addr \<Rightarrow> pyobj" where
  "deref h a = (if a < length h then h ! a else PyOther)"

definition alloc :: "pyobj \<Rightarrow> heap \<Rightarrow> addr \<times> heap" where
  "alloc obj h = (length h, h @ [obj])"

text \<open>\<open>iter(obj)\<close>: the items of a list, the keys of a dict, \<open>TypeError\<close> otherwise.\<close>

definition iterate :: "pyobj \<Rightarrow> error + string list" where
  "iterate obj =
     (case obj of PyList xs \<Rightarrow> Inr xs | PyDict kvs \<Rightarrow> Inr (map fst kvs) | PyOther \<Rightarrow> Inl TypeError)"

definition startswith :: "string \<Rightarrow> string \<Rightarrow> bool" where
  "startswith s p \<longleftrightarrow> take (length p) s = p"

section \<open>Components, pipelines and execution units\<close>

text \<open>
  A component is an object: \<open>ref\<close> is its identity, which is what a dict keyed by components
  hashes. \<open>upstream_nodes\<close> is a set of components, here the references in the order in which
  the set is iterated.
\<close>

record component =
  ref :: nat
  component_id :: string
  upstream_nodes :: "nat list"

record pipeline_info =
  pipeline_name :: string
  pipeline_root :: string
  run_id :: "string option"

record pipeline =
  pipeline_info :: pipeline_info
  enable_cache :: bool
  metadata_connection_config :: nat
  additional_pipeline_args :: addr
  components :: "component list"

text \<open>
  The arguments of the call \<open>component_launcher.ComponentLauncher(...)\<close>. The launcher is an
  external collaborator; \<open>launcher_pipeline_info\<close> is the value of the pipeline's info object
  when the launcher is built.
\<close>

record launcher =
  launcher_component :: nat
  launcher_pipeline_info :: pipeline_info
  launcher_driver_args :: bool
  launcher_metadata_connection_config :: nat
  launcher_additional_pipeline_args :: addr

record dofn =
  dofn_additional_pipeline_args :: addr
  dofn_component_launcher :: launcher
  dofn_component_id :: string

definition job_name_arg :: "string \<Rightarrow> string" where
  "job_name_arg job_name = ''--job_name='' @ job_name"

text \<open>
  \<open>_ComponentAsDoFn.__init__(component, tfx_pipeline)\<close>, with \<open>ts\<close> the value of
  \<open>int(datetime.timestamp(datetime.now()))\<close>. It returns the new unit, or the exception, and
  the heap it leaves. The steps: \<open>.copy()\<close> allocates the copy \<open>a1\<close> of the dict;
  \<open>setdefault('beam_pipeline_args', [])\<close> allocates the empty list \<open>a2\<close> and stores it
  in the copy when the key is absent; the comprehension iterates the list found and
  allocates the filtered list \<open>a3\<close>; the item assignment stores \<open>a3\<close> in the copy;
  \<open>append\<close> extends the list at \<open>a3\<close> in place.
\<close>

definition ComponentAsDoFn_init ::
  "component \<Rightarrow> pipeline \<Rightarrow> int \<Rightarrow> heap \<Rightarrow> (error + dofn) \<times> heap" where
  "ComponentAsDoFn_init component tfx_pipeline ts h =
     (case deref h (additional_pipeline_args tfx_pipeline) of
        PyOther \<Rightarrow> (Inl AttributeError, h)
      | PyList xs \<Rightarrow> (Inl AttributeError, snd (alloc (PyList xs) h))
      | PyDict kvs \<Rightarrow>
          (let (a1, h1) = alloc (PyDict kvs) h;
               job_name = component_job_name (pipeline_name (pipeline_info tfx_pipeline))
                            (component_id component) ts;
               (a2, h2) = alloc (PyList []) h1;
               (found, kvs2) =
                 (case map_of kvs ''beam_pipeline_args'' of
                    None \<Rightarrow> (a2, AList.update ''beam_pipeline_args'' a2 kvs)
                  | Some a \<Rightarrow> (a, kvs));
               h3 = h2[a1 := PyDict kvs2]
           in case iterate (deref h3 found) of
                Inl e \<Rightarrow> (Inl e, h3)
              | Inr args \<Rightarrow>
                  (let (a3, h4) =
                         alloc (PyList (filter (\<lambda>arg. \<not> startswith arg ''--job_name'') args)) h3;
                       kvs3 = AList.update ''beam_pipeline_args'' a3 kvs2;
                       h5 = h4[a1 := PyDict kvs3];
                       h6 = (case deref h5 a3 of
                               PyList ys \<Rightarrow> h5[a3 := PyList (ys @ [job_name_arg job_name])]
                             | _ \<Rightarrow> h5)
                   in (Inr \<lparr> dofn_additional_pipeline_args = a1,
                             dofn_component_launcher =
                               \<lparr> launcher_component = ref component,
                                 launcher_pipeline_info = pipeline_info tfx_pipeline,
                                 launcher_driver_args = enable_cache tfx_pipeline,
                                 launcher_metadata_connection_config =
                                   metadata_connection_config tfx_pipeline,
                                 launcher_additional_pipeline_args = a1 \<rparr>,
                             dofn_component_id = component_id component \<rparr>, h6))))"

text \<open>
  What a unit's launcher reads as its \<open>beam_pipeline_args\<close>: the list stored under that key in
  the unit's own dict.
\<close>

definition effective_beam_pipeline_args :: "heap \<Rightarrow> dofn \<Rightarrow> string list option" where
  "effective_beam_pipeline_args h d =
     (case deref h (dofn_additional_pipeline_args d) of
        PyDict kvs \<Rightarrow>
          (case map_of kvs ''beam_pipeline_args'' of
             Some a \<Rightarrow> (case deref h a of PyList xs \<Rightarrow> Some xs | _ \<Rightarrow> None)
           | None \<Rightarrow> None)
      | _ \<Rightarrow> None)"

text \<open>The arguments the user supplied: what iterating the pipeline's own entry gives, nothing when the key is absent.\<close>

definition user_beam_pipeline_args :: "heap \<Rightarrow> pipeline \<Rightarrow> string list" where
  "user_beam_pipeline_args h p =
     (case deref h (additional_pipeline_args p) of
        PyDict kvs \<Rightarrow>
          (case map_of kvs ''beam_pipeline_args'' of
             Some a \<Rightarrow> (case iterate (deref h a) of Inr xs \<Rightarrow> xs | Inl e \<Rightarrow> [])
           | None \<Rightarrow> [])
      | _ \<Rightarrow> [])"

text \<open>Every reference stored in a dict of the heap points into the heap, as in any Python state.\<close>

definition closed_heap :: "heap \<Rightarrow> bool" where
  "closed_heap h \<longleftrightarrow>
     list_all (\<lambda>obj. case obj of PyDict kvs \<Rightarrow> list_all (\<lambda>kv. snd kv < length h) kvs | _ \<Rightarrow> True) h"

text \<open>
  An example state: the pipeline \<open>taxi\<close> whose dict, at address 0, holds under
  \<open>beam_pipeline_args\<close> the list at address 1, with two job names supplied by the user.
\<close>

definition example_heap :: heap where
  "example_heap =
     [PyDict [(''beam_pipeline_args'', 1)],
      PyList [''--runner=PortableRunner'', ''--job_name=mine'', ''--job_name_too'']]"

definition example_component :: component where
  "example_component = \<lparr> ref = 7, component_id = ''Trainer'', upstream_nodes = [] \<rparr>"

definition example_pipeline :: pipeline where
  "example_pipeline =
     \<lparr> pipeline_info = \<lparr> pipeline_name = ''taxi'', pipeline_root = ''/tmp'', run_id = None \<rparr>,
       enable_cache = True,
       metadata_connection_config = 0,
       additional_pipeline_args = 0,
       components = [example_component] \<rparr>"

section \<open>The clock\<close>

text \<open>
  A reading of \<open>datetime.datetime.now()\<close>: the fields of the naive local time, and
  \<open>posix_seconds\<close>, the value of \<open>int(datetime.timestamp(...))\<close> for it (which depends on the
  local time zone and is taken with the reading). \<open>isoformat\<close> follows the library:
  \<open>YYYY-MM-DDTHH:MM:SS\<close>, followed by \<open>.ffffff\<close> when the microsecond is not 0.
\<close>

record datetime =
  year :: nat
  month :: nat
  day :: nat
  hour :: nat
  minute :: nat
  second :: nat
  microsecond :: nat
  posix_seconds :: int

definition valid_datetime :: "datetime \<Rightarrow> bool" where
  "valid_datetime d \<longleftrightarrow>
     1 \<le> year d \<and> year d \<le> 9999 \<and> 1 \<le> month d \<and> month d \<le> 12 \<and>
     1 \<le> day d \<and> day d \<le> 31 \<and> hour d < 24 \<and> minute d < 60 \<and> second d < 60 \<and>
     microsecond d < 1000000"

definition zero_pad :: "nat \<Rightarrow> nat \<Rightarrow> string" where
  "zero_pad w n = replicate (w - length (str_nat n)) CHR ''0'' @ str_nat n"

definition isoformat :: "datetime \<Rightarrow> string" where
  "isoformat d =
     zero_pad 4 (year d) @ ''-'' @ zero_pad 2 (month d) @ ''-'' @ zero_pad 2 (day d) @ ''T'' @
     zero_pad 2 (hour d) @ '':'' @ zero_pad 2 (minute d) @ '':'' @ zero_pad 2 (second d) @
     (if microsecond d = 0 then [] else ''.'' @ zero_pad 6 (microsecond d))"

text \<open>
  The shape of an ISO 8601 combined date and time, as the specification names it: a
  pattern of digits and literal characters, with an optional fraction of six digits.
\<close>

datatype pat = Digit | Lit char

fun matches :: "pat list \<Rightarrow> string \<Rightarrow> bool" where
  "matches [] [] = True"
| "matches (Digit # ps) (c # cs) = (c \<in> set ascii_digits \<and> matches ps cs)"
| "matches (Lit l # ps) (c # cs) = (c = l \<and> matches ps cs)"
| "matches _ _ = False"

definition iso8601_seconds :: "pat list" where
  "iso8601_seconds =
     replicate 4 Digit @ [Lit CHR ''-''] @ replicate 2 Digit @ [Lit CHR ''-''] @
     replicate 2 Digit @ [Lit CHR ''T''] @ replicate 2 Digit @ [Lit CHR '':''] @
     replicate 2 Digit @ [Lit CHR '':''] @ replicate 2 Digit"

definition is_iso8601 :: "string \<Rightarrow> bool" where
  "is_iso8601 s \<longleftrightarrow>
     matches iso8601_seconds s \<or>
     matches (iso8601_seconds @ [Lit CHR ''.''] @ replicate 6 Digit) s"

section \<open>The Beam runner\<close>

text \<open>
  A \<open>PCollection\<close> of the orchestrating Beam pipeline: the root created by \<open>CreateRoot\<close>, or
  the output of \<open>input | label >> beam.ParDo(dofn, *side_inputs)\<close>, where every side input
  is the \<open>AsIter\<close> view of a collection. The engine runs a \<open>ParDo\<close> once its input and all
  its side inputs are available.
\<close>

datatype pvalue = CreateRoot | ParDo pvalue string dofn "pvalue list"

fun full_label :: "pvalue \<Rightarrow> string" where
  "full_label CreateRoot = ''CreateRoot''"
| "full_label (ParDo input label d side_inputs) = label"

datatype event =
    DependsOn string "string list"
  | Scheduled string
  | Running string
  | Launch string
  | Finished string

text \<open>
  The state of the scheduling loop of \<open>BeamDagRunner.run\<close>: the local \<open>signal_map\<close>, keyed
  by component object, the transforms applied to the Beam pipeline so far, the heap, the
  number of clock readings taken, and the lines logged.
\<close>

record sched_state =
  signal_map :: "nat \<rightharpoonup> pvalue"
  transforms :: "pvalue list"
  heap :: heap
  ticks :: nat
  logged :: "event list"

text \<open>The inner loop: every upstream node is asserted to be in the map and its signal is appended.\<close>

fun upstream_signals :: "(nat \<rightharpoonup> pvalue) \<Rightarrow> nat list \<Rightarrow> pvalue list \<Rightarrow> error + pvalue list" where
  "upstream_signals sm [] signals_to_wait = Inr signals_to_wait"
| "upstream_signals sm (upstream_node # rest) signals_to_wait =
     (case sm upstream_node of
        None \<Rightarrow> Inl AssertionError
      | Some s \<Rightarrow> upstream_signals sm rest (signals_to_wait @ [s]))"

text \<open>
  The body of the loop over \<open>tfx_pipeline.components\<close>. An exception leaves the loop with
  the state reached. \<open>clock\<close> gives the successive readings of \<open>datetime.now()\<close>; the
  construction of a unit takes one, unless \<open>.copy()\<close> has raised before.
\<close>

definition reads_clock :: "pipeline \<Rightarrow> heap \<Rightarrow> bool" where
  "reads_clock tfx_pipeline h \<longleftrightarrow> deref h (additional_pipeline_args tfx_pipeline) \<noteq> PyOther"

definition schedule_component ::
  "pipeline \<Rightarrow> (nat \<Rightarrow> datetime) \<Rightarrow> component \<Rightarrow> sched_state \<Rightarrow> error option \<times> sched_state" where
  "schedule_component tfx_pipeline clock component st =
     (case upstream_signals (signal_map st) (upstream_nodes component) [] of
        Inl e \<Rightarrow> (Some e, st)
      | Inr signals_to_wait \<Rightarrow>
          (let st1 = st\<lparr>logged := logged st @
                        [DependsOn (component_id component) (map full_label signals_to_wait)]\<rparr>;
               (r, h') = ComponentAsDoFn_init component tfx_pipeline
                           (posix_seconds (clock (ticks st))) (heap st);
               st2 = st1\<lparr>heap := h',
                         ticks := (if reads_clock tfx_pipeline (heap st) then Suc (ticks st)
                                   else ticks st)\<rparr>
           in case r of
                Inl e \<Rightarrow> (Some e, st2)
              | Inr d \<Rightarrow>
                  (let signal = ParDo CreateRoot (''Run['' @ component_id component @ '']'') d
                                  signals_to_wait
                   in (None, st2\<lparr>signal_map := (signal_map st)(ref component \<mapsto> signal),
                                  transforms := transforms st @ [signal],
                                  logged := logged st2 @ [Scheduled (component_id component)]\<rparr>))))"

fun schedule_all ::
  "pipeline \<Rightarrow> (nat \<Rightarrow> datetime) \<Rightarrow> component list \<Rightarrow> sched_state \<Rightarrow> error option \<times> sched_state" where
  "schedule_all tfx_pipeline clock [] st = (None, st)"
| "schedule_all tfx_pipeline clock (component # rest) st =
     (case schedule_component tfx_pipeline clock component st of
        (Some e, st') \<Rightarrow> (Some e, st')
      | (None, st') \<Rightarrow> schedule_all tfx_pipeline clock rest st')"

text \<open>
  What \<open>run\<close> leaves: the runner's \<open>_beam_orchestrator_args\<close>, the pipeline object, the
  heap, the clock readings taken, the units applied to the Beam pipeline (none when no
  Beam pipeline was created), and whether the Beam pipeline was handed to the engine,
  which the \<open>with\<close> block does on leaving when no exception was raised.
\<close>

record run_result =
  result_orchestrator_args :: "string list"
  result_pipeline :: pipeline
  result_heap :: heap
  result_ticks :: nat
  result_scheduled :: "pvalue list"
  result_submitted :: bool
  result_logged :: "event list"

definition run ::
  "(string \<rightharpoonup> string) \<Rightarrow> (nat \<Rightarrow> datetime) \<Rightarrow> string list \<Rightarrow> pipeline \<Rightarrow> heap
     \<Rightarrow> error option \<times> run_result" where
  "run environ clock beam_orchestrator_args tfx_pipeline h =
     (let named = list_ex (\<lambda>arg. startswith arg ''--job_name='') beam_orchestrator_args;
          args = (if \<not> named
                  then beam_orchestrator_args @
                    [job_name_arg (orchestrator_job_name
                       (pipeline_name (pipeline_info tfx_pipeline)) (posix_seconds (clock 0)))]
                  else beam_orchestrator_args);
          t = (if \<not> named then 1 else 0)
      in if environ ''TFX_JSON_EXPORT_PIPELINE_ARGS_PATH'' \<noteq> None
         then (None, \<lparr> result_orchestrator_args = args, result_pipeline = tfx_pipeline,
                       result_heap = h, result_ticks = t, result_scheduled = [],
                       result_submitted = False, result_logged = [] \<rparr>)
         else
           (let p = tfx_pipeline\<lparr>pipeline_info :=
                      (pipeline_info tfx_pipeline)\<lparr>run_id := Some (isoformat (clock t))\<rparr>\<rparr>;
                (r, st) = schedule_all p clock (components p)
                            \<lparr> signal_map = Map.empty, transforms = [], heap = h,
                              ticks = Suc t, logged = [] \<rparr>
            in (r, \<lparr> result_orchestrator_args = args, result_pipeline = p,
                     result_heap = heap st, result_ticks = ticks st,
                     result_scheduled = transforms st, result_submitted = (r = None),
                     result_logged = logged st \<rparr>)))"

section \<open>The execution unit\<close>

text \<open>
  \<open>_run_component\<close> logs, calls the launcher's \<open>launch()\<close> and logs again. The launcher is
  external: \<open>outcome\<close> is what the call does, \<open>None\<close> when it returns and the exception when
  it raises; the call itself is the event \<open>Launch\<close>.
\<close>

definition run_component :: "dofn \<Rightarrow> error option \<Rightarrow> event list \<Rightarrow> error option \<times> event list" where
  "run_component d outcome tr =
     (let tr1 = tr @ [Running (dofn_component_id d), Launch (dofn_component_id d)]
      in case outcome of
           Some e \<Rightarrow> (Some e, tr1)
         | None \<Rightarrow> (None, tr1 @ [Finished (dofn_component_id d)]))"

text \<open>The loop \<open>for signal in signals: assert not list(signal)\<close>.\<close>

fun assert_signals_empty :: "'a list list \<Rightarrow> error option" where
  "assert_signals_empty [] = None"
| "assert_signals_empty (signal # rest) =
     (if signal \<noteq> [] then Some AssertionError else assert_signals_empty rest)"

definition process ::
  "dofn \<Rightarrow> 'e \<Rightarrow> 'a list list \<Rightarrow> error option \<Rightarrow> event list \<Rightarrow> error option \<times> event list" where
  "process d element signals outcome tr =
     (case assert_signals_empty signals of
        Some e \<Rightarrow> (Some e, tr)
      | None \<Rightarrow> run_component d outcome tr)"

definition launches :: "event list \<Rightarrow> nat" where
  "launches tr = length (filter (\<lambda>ev. case ev of Launch c \<Rightarrow> True | _ \<Rightarrow> False) tr)"

definition example_dofn :: dofn where
  "example_dofn =
     \<lparr> dofn_additional_pipeline_args = 2,
       dofn_component_launcher =
         \<lparr> launcher_component = 7,
           launcher_pipeline_info =
             \<lparr> pipeline_name = ''taxi'', pipeline_root = ''/tmp'', run_id = None \<rparr>,
           launcher_driver_args = True,
           launcher_metadata_connection_config = 0,
           launcher_additional_pipeline_args = 2 \<rparr>,
       dofn_component_id = ''Trainer'' \<rparr>"

text \<open>
  Example data: a clock, a component \<open>a\<close> without upstream nodes and a component \<open>b\<close>
  downstream of it, and the state in which \<open>run\<close> enters its loop.
\<close>

definition example_clock :: "nat \<Rightarrow> datetime" where
  "example_clock n =
     \<lparr> year = 2023, month = 11, day = 14, hour = 22, minute = 13, second = 20,
       microsecond = 250000, posix_seconds = 1700000000 + int n \<rparr>"

definition example_a :: component where
  "example_a = \<lparr> ref = 1, component_id = ''a'', upstream_nodes = [] \<rparr>"

definition example_b :: component where
  "example_b = \<lparr> ref = 2, component_id = ''b'', upstream_nodes = [1] \<rparr>"

definition example_start :: sched_state where
  "example_start =
     \<lparr> signal_map = Map.empty, transforms = [], heap = example_heap, ticks = 1, logged = [] \<rparr>"

definition example_environ :: "string \<rightharpoonup> string" where
  "example_environ = [''TFX_JSON_EXPORT_PIPELINE_ARGS_PATH'' \<mapsto> ''/tmp/args.json'']"

fun pvalue_dofn :: "pvalue \<Rightarrow> dofn option" where
  "pvalue_dofn CreateRoot = None"
| "pvalue_dofn (ParDo input label d side_inputs) = Some d"

section \<open>The graph builder\<close>

text \<open>
  Modelled from the spec: \<open>tfx/orchestration/pipeline.py\<close>, which constructs a
  \<open>Pipeline\<close>, is not among the sources; only its tests are. The data model follows
  section 3 of the specification. Nodes are objects: the builder receives references into
  a store of nodes. A channel has a type tag and an optional producing node; its artifact
  descriptors, which the builder only stamps (step 5), are left out.
\<close>

record channel =
  type_tag :: string
  producer :: "nat option"

text \<open>
  Modelled from the spec: the node of section 3, missing with \<open>pipeline.py\<close> and the
  component classes: an identity and the ordered input and output channels. Its upstream
  nodes are derived, see \<open>producers\<close>.
\<close>

record node =
  identity :: string
  inputs :: "(string \<times> channel) list"
  outputs :: "(string \<times> channel) list"

text \<open>
  Modelled from the spec: the failures of construction in section 7, missing with
  \<open>pipeline.py\<close>. \<open>DuplicateNodeIdentity\<close> carries the repeated identity,
  \<open>CycleDetected\<close> the node it names.
\<close>

datatype graph_error = DuplicateNodeIdentity string | CycleDetected nat

text \<open>
  Modelled from the spec: step 4 of the graph builder, missing with \<open>pipeline.py\<close>:
  a node reference passed several times counts once. The first occurrence is kept, so
  that the input order of the distinct nodes is unchanged.
\<close>

definition dedup :: "nat list \<Rightarrow> nat list" where
  "dedup ns = rev (remdups (rev ns))"

text \<open>
  Modelled from the spec: step 1 of the graph builder, missing with \<open>pipeline.py\<close>:
  the identities are indexed, and an identity that repeats is the failure.
\<close>

fun first_duplicate :: "string list \<Rightarrow> string option" where
  "first_duplicate [] = None"
| "first_duplicate (x # xs) = (if x \<in> set xs then Some x else first_duplicate xs)"

text \<open>
  Modelled from the spec: step 2 of the graph builder, missing with \<open>pipeline.py\<close>:
  there is an edge from the producer of each input channel to the consumer; a producer
  outside the collection gives no edge. \<open>producers\<close> are the producing nodes of the input
  channels of a node.
\<close>

definition producers :: "(nat \<Rightarrow> node) \<Rightarrow> nat \<Rightarrow> nat list" where
  "producers store v = List.map_filter (\<lambda>kv. producer (snd kv)) (inputs (store v))"

text \<open>
  Modelled from the spec: the edges that step 2 derives among the nodes of a collection,
  missing with \<open>pipeline.py\<close>.
\<close>

definition edges :: "(nat \<Rightarrow> node) \<Rightarrow> nat list \<Rightarrow> (nat \<times> nat) set" where
  "edges store ns = {(u, v). u \<in> set ns \<and> v \<in> set ns \<and> u \<in> set (producers store v)}"

text \<open>
  Modelled from the spec: the test of step 3, missing with \<open>pipeline.py\<close>: a node has
  indegree zero when none of its producers is among the unprocessed nodes.
\<close>

definition zero_indegree :: "(nat \<Rightarrow> node) \<Rightarrow> nat list \<Rightarrow> nat \<Rightarrow> bool" where
  "zero_indegree store remaining v \<longleftrightarrow>
     list_all (\<lambda>u. u \<notin> set remaining) (producers store v)"

text \<open>
  Modelled from the spec: one step of the search for the node that \<open>CycleDetected\<close>
  names, missing with \<open>pipeline.py\<close>: from a node to its first producer among the
  unprocessed nodes.
\<close>

definition unprocessed_producer :: "(nat \<Rightarrow> node) \<Rightarrow> nat list \<Rightarrow> nat \<Rightarrow> nat" where
  "unprocessed_producer store remaining v =
     (case filter (\<lambda>u. u \<in> set remaining) (producers store v) of
        [] \<Rightarrow> v
      | u # us \<Rightarrow> u)"

text \<open>
  Modelled from the spec: the node that \<open>CycleDetected\<close> names, missing with
  \<open>pipeline.py\<close>. The specification asks for a node on the cycle and leaves the choice
  open; here the builder walks from the first unprocessed node to a producer among the
  unprocessed nodes, as many times as there are unprocessed nodes.
\<close>

definition node_on_cycle :: "(nat \<Rightarrow> node) \<Rightarrow> nat list \<Rightarrow> nat" where
  "node_on_cycle store remaining =
     (case remaining of
        [] \<Rightarrow> 0
      | v # vs \<Rightarrow> (unprocessed_producer store remaining ^^ length remaining) v)"

text \<open>
  Modelled from the spec: step 3 of the graph builder, missing with \<open>pipeline.py\<close>:
  the stable topological sort. The first node, in input order, without an edge from an
  unprocessed node is extracted, again and again; when unprocessed nodes remain and none
  has indegree zero, the sort fails with \<open>CycleDetected\<close>.
\<close>

function toposort :: "(nat \<Rightarrow> node) \<Rightarrow> nat list \<Rightarrow> graph_error + nat list" where
  "toposort store remaining =
     (case find (zero_indegree store remaining) remaining of
        Some v \<Rightarrow>
          (case toposort store (removeAll v remaining) of
             Inl e \<Rightarrow> Inl e
           | Inr sorted_rest \<Rightarrow> Inr (v # sorted_rest))
      | None \<Rightarrow>
          (if remaining = [] then Inr []
           else Inl (CycleDetected (node_on_cycle store remaining))))"
  by pat_completeness auto
termination
proof (relation "measure (\<lambda>(store, remaining). length remaining)")
  show "wf (measure (\<lambda>(store, remaining). length remaining))" by simp
next
  fix store :: "nat \<Rightarrow> node" and remaining v
  assume "find (zero_indegree store remaining) remaining = Some v"
  then have "v \<in> set remaining" by (auto simp: find_Some_iff)
  then have "length (removeAll v remaining) < length remaining"
    by (induction remaining) (auto simp: less_Suc_eq_le length_removeAll_less_eq)
  then show "((store, removeAll v remaining), (store, remaining))
               \<in> measure (\<lambda>(store, remaining). length remaining)"
    by simp
qed

text \<open>
  Modelled from the spec: the contract \<open>build\<close> of the graph builder, missing with
  \<open>pipeline.py\<close>: deduplication, then the uniqueness of identities, then the sort over
  the derived edges.
\<close>

definition build :: "(nat \<Rightarrow> node) \<Rightarrow> nat list \<Rightarrow> graph_error + nat list" where
  "build store ns =
     (let distinct_nodes = dedup ns
      in case first_duplicate (map (\<lambda>n. identity (store n)) distinct_nodes) of
           Some i \<Rightarrow> Inl (DuplicateNodeIdentity i)
         | None \<Rightarrow> toposort store distinct_nodes)"

text \<open>
  Example stores, after the tests of the repository. \<open>dag_store\<close> is the pipeline of
  \<open>testPipeline\<close>: \<open>a\<close>, then \<open>b\<close> and \<open>c\<close> reading \<open>a\<close>, \<open>d\<close> reading \<open>b\<close> and \<open>c\<close>, and \<open>e\<close>
  reading \<open>a\<close>, \<open>b\<close> and \<open>d\<close>, at the references 0 to 4. \<open>loop_store\<close> is the pipeline of
  \<open>testPipelineWithLoop\<close>: \<open>a\<close> at 0, and three nodes at 1, 2 and 3 that read \<open>a\<close> and one
  another in a circle; the identities are a parameter. \<open>same_store\<close> is that of
  \<open>testPipelineWithDuplicatedComponentId\<close>.
\<close>

definition output_of :: "nat \<Rightarrow> string \<Rightarrow> channel" where
  "output_of n t = \<lparr> type_tag = t, producer = Some n \<rparr>"

definition dag_store :: "nat \<Rightarrow> node" where
  "dag_store n =
     (if n = 0 then \<lparr> identity = ''component_a'', inputs = [],
                      outputs = [(''output'', output_of 0 ''component_a'')] \<rparr>
      else if n = 1 then \<lparr> identity = ''component_b'',
                      inputs = [(''a'', output_of 0 ''component_a'')],
                      outputs = [(''output'', output_of 1 ''component_b'')] \<rparr>
      else if n = 2 then \<lparr> identity = ''component_c'',
                      inputs = [(''a'', output_of 0 ''component_a'')],
                      outputs = [(''output'', output_of 2 ''component_c'')] \<rparr>
      else if n = 3 then \<lparr> identity = ''component_d'',
                      inputs = [(''b'', output_of 1 ''component_b''),
                                (''c'', output_of 2 ''component_c'')],
                      outputs = [(''output'', output_of 3 ''component_d'')] \<rparr>
      else \<lparr> identity = ''component_e'',
             inputs = [(''a'', output_of 0 ''component_a''), (''b'', output_of 1 ''component_b''),
                       (''d'', output_of 3 ''component_d'')],
             outputs = [(''output'', output_of 4 ''component_e'')] \<rparr>)"

definition loop_store :: "(nat \<Rightarrow> string) \<Rightarrow> nat \<Rightarrow> node" where
  "loop_store ids n =
     (if n = 0 then \<lparr> identity = ids 0, inputs = [],
                      outputs = [(''output'', output_of 0 (ids 0))] \<rparr>
      else if n = 1 then \<lparr> identity = ids 1,
                      inputs = [(''a'', output_of 0 (ids 0)), (''one'', output_of 3 ''channel_one'')],
                      outputs = [(''two'', output_of 1 ''channel_two'')] \<rparr>
      else if n = 2 then \<lparr> identity = ids 2,
                      inputs = [(''a'', output_of 0 (ids 0)), (''two'', output_of 1 ''channel_two'')],
                      outputs = [(''three'', output_of 2 ''channel_three'')] \<rparr>
      else \<lparr> identity = ids 3,
             inputs = [(''a'', output_of 0 (ids 0)), (''three'', output_of 2 ''channel_three'')],
             outputs = [(''one'', output_of 3 ''channel_one'')] \<rparr>)"

definition test_ids :: "nat \<Rightarrow> string" where
  "test_ids n = (if n = 0 then ''component_a'' else ''component_b'')"

definition distinct_ids :: "nat \<Rightarrow> string" where
  "distinct_ids n =
     (if n = 0 then ''component_a'' else if n = 1 then ''component_b''
      else if n = 2 then ''component_c'' else ''component_d'')"

definition same_store :: "nat \<Rightarrow> node" where
  "same_store n =
     \<lparr> identity = ''component_a'', inputs = [],
       outputs = [(''output'', output_of n ''component_a'')] \<rparr>"


section \<open>Properties of the string functions\<close>

declare str_nat.simps [simp del]

lemma dash_allowed: "allowed_char CHR ''-''"
  by (simp add: allowed_char_def)

lemma re_sub_dash_split:
  "allowed_char c \<Longrightarrow> re_sub_dash (xs @ c # ys) = re_sub_dash xs @ c # re_sub_dash ys"
  by (induction xs rule: re_sub_dash.induct) (simp_all add: dropWhile_append3)

lemma re_sub_dash_id: "\<forall>c \<in> set s. allowed_char c \<Longrightarrow> re_sub_dash s = s"
  by (induction s) simp_all

lemma re_sub_dash_allowed: "c \<in> set (re_sub_dash s) \<Longrightarrow> allowed_char c"
proof (induction s arbitrary: c rule: re_sub_dash.induct)
  case 1
  then show ?case by simp
next
  case (2 d ds)
  show ?case
  proof (cases "allowed_char d")
    case True
    with 2 show ?thesis by auto
  next
    case False
    with "2.prems" have "c = CHR ''-'' \<or> c \<in> set (re_sub_dash (dropWhile (\<lambda>d. \<not> allowed_char d) ds))"
      by simp
    with False "2.IH"(2) show ?thesis using dash_allowed by blast
  qed
qed

lemma digit_char_in: "d < 10 \<Longrightarrow> digit_char d \<in> set ascii_digits"
proof -
  assume "d < 10"
  then have "d \<in> {0, 1, 2, 3, 4, 5, 6, 7, 8, 9}" by auto
  then show ?thesis
    by (auto simp: digit_char_def ascii_digits_def)
qed


lemma re_sub_dash_subset: "c \<in> set (re_sub_dash s) \<Longrightarrow> c \<in> set s \<or> c = CHR ''-''"
proof (induction s arbitrary: c rule: re_sub_dash.induct)
  case 1
  then show ?case by simp
next
  case (2 d ds)
  show ?case
  proof (cases "allowed_char d")
    case True
    with 2 show ?thesis by auto
  next
    case False
    with "2.prems" have "c = CHR ''-'' \<or> c \<in> set (re_sub_dash (dropWhile (\<lambda>d. \<not> allowed_char d) ds))"
      by simp
    with False "2.IH"(2) show ?thesis by (auto dest: set_dropWhileD)
  qed
qed

lemma str_nat_digits: "c \<in> set (str_nat n) \<Longrightarrow> c \<in> set ascii_digits"
proof (induction n arbitrary: c rule: str_nat.induct)
  case (1 n)
  show ?case
  proof (cases "n < 10")
    case True
    with "1.prems" show ?thesis
      by (simp add: str_nat.simps [of n] digit_char_in)
  next
    case False
    with "1.prems" have "c \<in> set (str_nat (n div 10)) \<or> c = digit_char (n mod 10)"
      by (auto simp: str_nat.simps [of n])
    with False "1.IH" show ?thesis
      using digit_char_in [of "n mod 10"] by auto
  qed
qed

lemma str_int_chars: "c \<in> set (str_int i) \<Longrightarrow> c \<in> set (ascii_digits @ ''-'')"
  by (auto simp: str_int_def dest: str_nat_digits split: if_splits)

lemma lower_char_not_upper: "c \<notin> set ascii_uppercase \<Longrightarrow> lower_char c = c"
proof -
  assume "c \<notin> set ascii_uppercase"
  moreover have "length ascii_uppercase = length ascii_lowercase"
    by (simp add: ascii_uppercase_def ascii_lowercase_def)
  ultimately have "map_of (zip ascii_uppercase ascii_lowercase) c = None"
    by (simp add: map_of_zip_is_None)
  then show ?thesis by (simp add: lower_char_def)
qed

lemma lower_char_upper: "c \<in> set ascii_uppercase \<Longrightarrow> lower_char c \<in> set ascii_lowercase"
proof -
  assume "c \<in> set ascii_uppercase"
  moreover have "length ascii_uppercase = length ascii_lowercase"
    by (simp add: ascii_uppercase_def ascii_lowercase_def)
  ultimately obtain l where l: "map_of (zip ascii_uppercase ascii_lowercase) c = Some l"
    using map_of_zip_is_Some by fastforce
  then have "l \<in> set ascii_lowercase"
    by (meson map_of_SomeD set_zip_rightD)
  with l show ?thesis by (simp add: lower_char_def)
qed

lemma digits_dash_not_upper: "c \<in> set (ascii_digits @ ''-'') \<Longrightarrow> c \<notin> set ascii_uppercase"
  by (auto simp: ascii_digits_def ascii_uppercase_def)

lemma lower_str_int: "lower (str_int i) = str_int i"
proof -
  have "lower_char x = x" if "x \<in> set (str_int i)" for x
    by (rule lower_char_not_upper, rule digits_dash_not_upper, rule str_int_chars, rule that)
  then show ?thesis
    unfolding lower_def by (rule map_idI)
qed

lemma lower_char_alphabet: "allowed_char (lower_char c) \<Longrightarrow> lower_char c \<in> job_alphabet"
proof (cases "c \<in> set ascii_uppercase")
  case True
  then show ?thesis using lower_char_upper [of c] by (simp add: job_alphabet_def)
next
  case False
  assume "allowed_char (lower_char c)"
  with False show ?thesis
    by (auto simp: lower_char_not_upper allowed_char_def job_alphabet_def)
qed

lemma lower_dash: "lower ''-'' = ''-''"
  by (simp add: lower_def lower_char_not_upper ascii_uppercase_def)

lemma re_sub_dash_str_int: "re_sub_dash (str_int i) = str_int i"
proof (rule re_sub_dash_id, rule ballI)
  fix c assume "c \<in> set (str_int i)"
  then have "c \<in> set (ascii_digits @ ''-'')" by (rule str_int_chars)
  then show "allowed_char c" by (auto simp: allowed_char_def)
qed

lemma re_sub_dash_lower_alphabet: "c \<in> set (re_sub_dash (lower s)) \<Longrightarrow> c \<in> job_alphabet"
proof -
  assume c: "c \<in> set (re_sub_dash (lower s))"
  then have a: "allowed_char c" by (rule re_sub_dash_allowed)
  from c have "c \<in> set (lower s) \<or> c = CHR ''-''" by (rule re_sub_dash_subset)
  then show ?thesis
  proof
    assume "c \<in> set (lower s)"
    then obtain d where "c = lower_char d" by (auto simp: lower_def)
    with a show ?thesis by (simp add: lower_char_alphabet)
  next
    assume "c = CHR ''-''"
    then show ?thesis by (simp add: job_alphabet_def)
  qed
qed

lemma component_job_name_parts:
  "component_job_name pn cid ts =
     re_sub_dash (lower pn) @ ''-'' @ re_sub_dash (lower cid) @ ''-'' @ str_int ts"
proof -
  have "lower (pn @ ''-'' @ cid @ ''-'' @ str_int ts)
        = lower pn @ CHR ''-'' # (lower cid @ CHR ''-'' # str_int ts)"
    using lower_dash by (simp add: lower_def lower_str_int [unfolded lower_def])
  then show ?thesis
    by (simp add: component_job_name_def re_sub_dash_split dash_allowed re_sub_dash_str_int)
qed

lemma orchestrator_example:
  "orchestrator_job_name ''My Pipeline!'' 1700000000 = ''my-pipeline--1700000000''"
proof -
  have "str_int 1700000000 = ''1700000000''"
    by (simp add: str_int_def str_nat.simps digit_char_def ascii_digits_def)
  then show ?thesis
    by (simp add: orchestrator_job_name_def lower_def lower_char_def allowed_char_def
        ascii_digits_def ascii_lowercase_def ascii_uppercase_def)
qed

text \<open>
  Claim C5. The job name derived for a component is the sanitised pipeline name, a dash,
  the sanitised component id, a dash and the decimal timestamp, where sanitising is
  lower-casing followed by the replacement of every run of characters outside
  \<open>[0-9a-zA-Z-]\<close> by one dash; the name uses only digits, lower-case letters and dashes.
  The orchestrator's name, which has no component id, is \<open>my-pipeline--1700000000\<close> for the
  pipeline name \<open>My Pipeline!\<close> at the timestamp 1700000000.
\<close>

theorem job_name_pattern:
  "component_job_name pn cid ts =
     re_sub_dash (lower pn) @ ''-'' @ re_sub_dash (lower cid) @ ''-'' @ str_int ts
   \<and> set (component_job_name pn cid ts) \<subseteq> job_alphabet
   \<and> orchestrator_job_name ''My Pipeline!'' 1700000000 = ''my-pipeline--1700000000''"
proof -
  have "set (component_job_name pn cid ts) \<subseteq> job_alphabet"
    unfolding component_job_name_def by (rule subsetI) (rule re_sub_dash_lower_alphabet)
  then show ?thesis
    using component_job_name_parts [of pn cid ts] orchestrator_example by simp
qed

section \<open>Constructing an execution unit\<close>

lemma init_frame_aux: "take (length h) (snd (ComponentAsDoFn_init c p ts h)) = h"
  by (simp add: ComponentAsDoFn_init_def alloc_def Let_def
      split: pyobj.split option.split sum.split prod.split)

lemma closed_heap_lookup:
  assumes "closed_heap h" and "deref h a = PyDict kvs" and "map_of kvs k = Some b"
  shows "b < length h"
proof -
  from assms(2) have "a < length h" and "h ! a = PyDict kvs"
    by (auto simp: deref_def split: if_splits)
  then have "PyDict kvs \<in> set h" by (metis nth_mem)
  with assms(1) have "list_all (\<lambda>kv. snd kv < length h) kvs"
    by (fastforce simp: closed_heap_def list_all_iff)
  moreover from assms(3) have "(k, b) \<in> set kvs" by (rule map_of_SomeD)
  ultimately show ?thesis by (auto simp: list_all_iff)
qed

lemma init_absent:
  assumes "deref h (additional_pipeline_args p) = PyDict kvs"
    and "map_of kvs ''beam_pipeline_args'' = None"
    and "ComponentAsDoFn_init c p ts h = (r, h')"
  shows "\<exists>d. r = Inr d \<and> dofn_additional_pipeline_args d = length h \<and>
           h' = h @ [PyDict (AList.update ''beam_pipeline_args'' (length h + 2) kvs), PyList [],
                 PyList [job_name_arg (component_job_name (pipeline_name (pipeline_info p)) (component_id c) ts)]]"
  using assms
  by (clarsimp simp: ComponentAsDoFn_init_def alloc_def Let_def iterate_def deref_def nth_append
      list_update_append)

lemma init_present:
  assumes "deref h (additional_pipeline_args p) = PyDict kvs"
    and "map_of kvs ''beam_pipeline_args'' = Some a" and "a < length h"
    and "ComponentAsDoFn_init c p ts h = (r, h')"
  shows "case iterate (deref h a) of
           Inl e \<Rightarrow> r = Inl e
         | Inr args \<Rightarrow> 
            (\<exists>d. r = Inr d \<and> dofn_additional_pipeline_args d = length h \<and>
               h' = h @ [PyDict (AList.update ''beam_pipeline_args'' (length h + 2) kvs), PyList [],
                 PyList (filter (\<lambda>arg. \<not> startswith arg ''--job_name'') args @
                   [job_name_arg (component_job_name (pipeline_name (pipeline_info p)) (component_id c) ts)])])"
proof -
  have "deref ((h @ [PyDict kvs, PyList []])[length h := PyDict kvs]) a = deref h a"
    using assms(3) by (simp add: deref_def nth_append)
  moreover have "deref (h @ [x, y, z]) (Suc (Suc (length h))) = z" for x y z
    by (simp add: deref_def nth_append)
  ultimately show ?thesis using assms
    by (clarsimp simp: ComponentAsDoFn_init_def alloc_def Let_def nth_append
      list_update_append split: sum.splits)
qed

lemma effective_new:
  "effective_beam_pipeline_args
     (h @ [PyDict (AList.update ''beam_pipeline_args'' (length h + 2) kvs), PyList [], PyList xs])
     (d\<lparr>dofn_additional_pipeline_args := length h\<rparr>) = Some xs"
  by (simp add: effective_beam_pipeline_args_def deref_def nth_append update_conv')

lemma startswith_job_name_arg: "startswith (job_name_arg n) ''--job_name''"
  by (simp add: startswith_def job_name_arg_def)

lemma filter_job_names:
  "startswith y ''--job_name'' \<Longrightarrow>
   filter (\<lambda>arg. startswith arg ''--job_name'')
     (filter (\<lambda>arg. \<not> startswith arg ''--job_name'') xs @ [y]) = [y]"
  by (induction xs) simp_all

text \<open>
  Claim C6. When the construction of an execution unit succeeds, the list its launcher reads
  as \<open>beam_pipeline_args\<close> is the user's arguments without those that start with
  \<open>--job_name\<close>, followed by the derived job name argument; exactly one of its arguments
  starts with \<open>--job_name\<close>, the derived one, however many the user supplied.
\<close>

theorem job_name_argument_unique:
  assumes "closed_heap h" and "ComponentAsDoFn_init c p ts h = (Inr d, h')"
  shows "\<exists>args. effective_beam_pipeline_args h' d = Some args
     \<and> args = filter (\<lambda>arg. \<not> startswith arg ''--job_name'') (user_beam_pipeline_args h p)
              @ [job_name_arg (component_job_name (pipeline_name (pipeline_info p)) (component_id c) ts)]
     \<and> filter (\<lambda>arg. startswith arg ''--job_name'') args =
         [job_name_arg (component_job_name (pipeline_name (pipeline_info p)) (component_id c) ts)]"
proof -
  let ?new = "job_name_arg (component_job_name (pipeline_name (pipeline_info p)) (component_id c) ts)"
  let ?keep = "filter (\<lambda>arg. \<not> startswith arg ''--job_name'')"
  have eff: "effective_beam_pipeline_args h' d = Some (?keep (user_beam_pipeline_args h p) @ [?new])"
  proof (cases "deref h (additional_pipeline_args p)")
    case (PyDict kvs)
    show ?thesis
    proof (cases "map_of kvs ''beam_pipeline_args''")
      case None
      from init_absent [OF PyDict None assms(2)]
      have a: "dofn_additional_pipeline_args d = length h"
        and h': "h' = h @ [PyDict (AList.update ''beam_pipeline_args'' (length h + 2) kvs), PyList [], PyList [?new]]"
        by auto
      have "effective_beam_pipeline_args h' (d\<lparr>dofn_additional_pipeline_args := length h\<rparr>) = Some [?new]"
        unfolding h' by (rule effective_new)
      moreover have "d\<lparr>dofn_additional_pipeline_args := length h\<rparr> = d"
        using a by simp
      moreover have "user_beam_pipeline_args h p = []"
        using PyDict None by (simp add: user_beam_pipeline_args_def)
      ultimately show ?thesis by simp
    next
      case (Some a)
      have lt: "a < length h" using assms(1) PyDict Some by (rule closed_heap_lookup)
      from init_present [OF PyDict Some lt assms(2)]
      obtain args where it: "iterate (deref h a) = Inr args"
        and a: "dofn_additional_pipeline_args d = length h"
        and h': "h' = h @ [PyDict (AList.update ''beam_pipeline_args'' (length h + 2) kvs), PyList [],
                   PyList (?keep args @ [?new])]"
        by (auto split: sum.splits)
      have "effective_beam_pipeline_args h' (d\<lparr>dofn_additional_pipeline_args := length h\<rparr>)
              = Some (?keep args @ [?new])"
        unfolding h' by (rule effective_new)
      moreover have "d\<lparr>dofn_additional_pipeline_args := length h\<rparr> = d"
        using a by simp
      moreover have "user_beam_pipeline_args h p = args"
        using PyDict Some it by (simp add: user_beam_pipeline_args_def)
      ultimately show ?thesis by simp
    qed
  next
    case (PyList xs)
    with assms(2) show ?thesis by (simp add: ComponentAsDoFn_init_def)
  next
    case PyOther
    with assms(2) show ?thesis by (simp add: ComponentAsDoFn_init_def)
  qed
  show ?thesis
    using eff filter_job_names [OF startswith_job_name_arg] by simp
qed

lemma example_job_name: "component_job_name ''taxi'' ''Trainer'' 5 = ''taxi-trainer-5''"
  by (simp add: component_job_name_def lower_def lower_char_def allowed_char_def
      ascii_digits_def ascii_lowercase_def ascii_uppercase_def str_int_def str_nat.simps digit_char_def)

lemma example_closed: "closed_heap example_heap"
  by (simp add: closed_heap_def example_heap_def)

lemma example_init:
  "ComponentAsDoFn_init example_component example_pipeline 5 example_heap =
     (Inr \<lparr>dofn_additional_pipeline_args = 2,
         dofn_component_launcher =
           \<lparr>launcher_component = 7,
              launcher_pipeline_info =
                \<lparr>pipeline_name = ''taxi'', pipeline_root = ''/tmp'', run_id = None\<rparr>,
              launcher_driver_args = True,
              launcher_metadata_connection_config = 0,
              launcher_additional_pipeline_args = 2\<rparr>,
         dofn_component_id = ''Trainer''\<rparr>,
      [PyDict [(''beam_pipeline_args'', 1)],
       PyList [''--runner=PortableRunner'', ''--job_name=mine'', ''--job_name_too''],
       PyDict [(''beam_pipeline_args'', 4)], PyList [],
       PyList [''--runner=PortableRunner'', ''--job_name=taxi-trainer-5'']])"
  by (simp add: ComponentAsDoFn_init_def example_component_def example_pipeline_def
      example_heap_def deref_def alloc_def iterate_def startswith_def job_name_arg_def
      example_job_name)

theorem job_name_argument_unique_witness:
  "closed_heap example_heap \<and>
   (\<exists>d h'. ComponentAsDoFn_init example_component example_pipeline 5 example_heap = (Inr d, h') \<and>
      effective_beam_pipeline_args h' d =
        Some [''--runner=PortableRunner'', ''--job_name=taxi-trainer-5''] \<and>
      filter (\<lambda>arg. startswith arg ''--job_name'')
        [''--runner=PortableRunner'', ''--job_name=taxi-trainer-5''] = [''--job_name=taxi-trainer-5''])"
  using job_name_argument_unique [OF example_closed example_init] example_closed example_init
  by (simp add: user_beam_pipeline_args_def example_heap_def example_pipeline_def
      example_component_def deref_def iterate_def startswith_def job_name_arg_def example_job_name)

text \<open>
  Claim C10. Constructing an execution unit leaves the pipeline's objects as they were:
  whatever the construction returns, the pipeline's \<open>additional_pipeline_args\<close> dict
  holds the same entries afterwards, the list under its \<open>beam_pipeline_args\<close> key (when
  there is one) is the same, and so is every other object that existed before; the
  construction only allocates new objects (the copy and the fresh lists).
\<close>

theorem init_leaves_pipeline_unchanged:
  assumes "ComponentAsDoFn_init c p ts h = (r, h')"
    and "closed_heap h"
    and "deref h (additional_pipeline_args p) = PyDict kvs"
  shows "deref h' (additional_pipeline_args p) = PyDict kvs
     \<and> (\<forall>a. map_of kvs ''beam_pipeline_args'' = Some a \<longrightarrow> deref h' a = deref h a)
     \<and> take (length h) h' = h"
proof -
  have t: "take (length h) h' = h"
    using init_frame_aux [of h c p ts] assms(1) by simp
  have same: "deref h' a = deref h a" if "a < length h" for a
  proof -
    from t have "length h \<le> length h'"
      by (metis length_take min.cobounded1)
    moreover from t that have "h' ! a = h ! a"
      by (metis nth_take)
    ultimately show ?thesis using that by (simp add: deref_def)
  qed
  from assms(3) have "additional_pipeline_args p < length h"
    by (auto simp: deref_def split: if_splits)
  then have "deref h' (additional_pipeline_args p) = PyDict kvs"
    using same assms(3) by simp
  moreover have "deref h' a = deref h a" if "map_of kvs ''beam_pipeline_args'' = Some a" for a
    using same closed_heap_lookup [OF assms(2,3) that] by simp
  ultimately show ?thesis using t by simp
qed

theorem init_leaves_pipeline_unchanged_witness:
  "closed_heap example_heap \<and>
   deref example_heap (additional_pipeline_args example_pipeline) = PyDict [(''beam_pipeline_args'', 1)] \<and>
   (\<exists>r h'. ComponentAsDoFn_init example_component example_pipeline 5 example_heap = (r, h') \<and>
      length example_heap < length h' \<and>
      deref h' (additional_pipeline_args example_pipeline) = PyDict [(''beam_pipeline_args'', 1)] \<and>
      deref h' 1 = deref example_heap 1 \<and>
      take (length example_heap) h' = example_heap)"
proof -
  have d: "deref example_heap (additional_pipeline_args example_pipeline) = PyDict [(''beam_pipeline_args'', 1)]"
    by (simp add: example_heap_def example_pipeline_def deref_def)
  from init_leaves_pipeline_unchanged [OF example_init example_closed d]
  show ?thesis
    using example_closed d example_init by (simp add: example_heap_def)
qed

section \<open>Running a unit\<close>

lemma assert_signals_empty_None: "assert_signals_empty signals = None \<longleftrightarrow> (\<forall>s \<in> set signals. s = [])"
  by (induction signals) auto

lemma assert_signals_empty_Some: "assert_signals_empty signals = Some e \<Longrightarrow> e = AssertionError"
  by (induction signals) (auto split: if_splits)

lemma launches_append: "launches (xs @ ys) = launches xs + launches ys"
  by (simp add: launches_def)

lemma launches_run_component: "launches (snd (run_component d outcome tr)) = launches tr + 1"
  by (cases outcome) (simp_all add: run_component_def launches_def)

text \<open>
  Claim C2. When some upstream signal is not empty, \<open>process\<close> fails with the assertion
  error and the launcher is not called (nothing is logged or launched); when every
  upstream signal is empty, the launcher is called exactly once and \<open>process\<close> ends as
  the launcher does.
\<close>

theorem process_checks_signals:
  "((\<exists>s \<in> set signals. s \<noteq> []) \<longrightarrow>
      process d element signals outcome tr = (Some AssertionError, tr))
   \<and> ((\<forall>s \<in> set signals. s = []) \<longrightarrow>
      fst (process d element signals outcome tr) = outcome \<and>
      launches (snd (process d element signals outcome tr)) = launches tr + 1)"
proof (cases "assert_signals_empty signals")
  case None
  then have e: "\<forall>s \<in> set signals. s = []" by (simp add: assert_signals_empty_None)
  have "process d element signals outcome tr = run_component d outcome tr"
    using None by (simp add: process_def)
  moreover have "fst (run_component d outcome tr) = outcome"
    by (cases outcome) (simp_all add: run_component_def)
  ultimately show ?thesis using e launches_run_component [of d outcome tr] by auto
next
  case (Some e)
  then have "e = AssertionError" by (rule assert_signals_empty_Some)
  moreover from Some have "\<not> (\<forall>s \<in> set signals. s = [])"
    by (simp add: assert_signals_empty_None [symmetric])
  ultimately show ?thesis using Some by (auto simp: process_def)
qed

theorem process_checks_signals_witness:
  "[1::nat] \<in> set [[], [1]] \<and> [1::nat] \<noteq> [] \<and>
   process example_dofn () [[], [1::nat]] None [] = (Some AssertionError, []) \<and>
   list_all (\<lambda>s. s = []) [[], [] :: nat list] \<and>
   fst (process example_dofn () [[], [] :: nat list] None []) = None \<and>
   launches (snd (process example_dofn () [[], [] :: nat list] None [])) = 1"
  using process_checks_signals [of "[[], [1::nat]]" example_dofn "()" None "[]"]
    process_checks_signals [of "[[], [] :: nat list]" example_dofn "()" None "[]"]
  by (simp add: launches_def)

section \<open>The run identifier has the ISO 8601 shape\<close>

lemma matches_append: "matches ps s \<Longrightarrow> matches qs t \<Longrightarrow> matches (ps @ qs) (s @ t)"
  by (induction ps s rule: matches.induct) auto

lemma matches_digits: "set s \<subseteq> set ascii_digits \<Longrightarrow> matches (replicate (length s) Digit) s"
  by (induction s) auto

lemma matches_lit: "matches [Lit c] [c]"
  by simp

lemma length_str_nat: "n < 10 ^ k \<Longrightarrow> 0 < k \<Longrightarrow> length (str_nat n) \<le> k"
proof (induction n arbitrary: k rule: str_nat.induct)
  case (1 n)
  show ?case
  proof (cases "n < 10")
    case True
    with "1.prems" show ?thesis by (simp add: str_nat.simps [of n])
  next
    case False
    obtain j where k: "k = Suc j" using "1.prems"(2) by (cases k) auto
    from False "1.prems"(1) k have "0 < j" by (cases j) auto
    moreover from "1.prems"(1) k have "n div 10 < 10 ^ j"
      by (simp add: less_mult_imp_div_less mult.commute)
    ultimately have "length (str_nat (n div 10)) \<le> j"
      using "1.IH" False by simp
    with False k show ?thesis by (simp add: str_nat.simps [of n])
  qed
qed

lemma zero_pad_matches:
  assumes "n < 10 ^ k" and "0 < k"
  shows "matches (replicate k Digit) (zero_pad k n)"
proof -
  have len: "length (zero_pad k n) = k"
    using length_str_nat [OF assms] by (simp add: zero_pad_def)
  have "set (zero_pad k n) \<subseteq> set ascii_digits"
    using str_nat_digits [of _ n] by (auto simp: zero_pad_def ascii_digits_def)
  from matches_digits [OF this] len show ?thesis by simp
qed

lemma isoformat_is_iso8601: "valid_datetime d \<Longrightarrow> is_iso8601 (isoformat d)"
proof -
  assume v: "valid_datetime d"
  have y: "matches (replicate 4 Digit) (zero_pad 4 (year d))"
    and mo: "matches (replicate 2 Digit) (zero_pad 2 (month d))"
    and da: "matches (replicate 2 Digit) (zero_pad 2 (day d))"
    and ho: "matches (replicate 2 Digit) (zero_pad 2 (hour d))"
    and mi: "matches (replicate 2 Digit) (zero_pad 2 (minute d))"
    and se: "matches (replicate 2 Digit) (zero_pad 2 (second d))"
    and mu: "matches (replicate 6 Digit) (zero_pad 6 (microsecond d))"
    using v by (simp_all add: valid_datetime_def zero_pad_matches)
  let ?s = "zero_pad 4 (year d) @ ''-'' @ zero_pad 2 (month d) @ ''-'' @ zero_pad 2 (day d) @ ''T'' @
     zero_pad 2 (hour d) @ '':'' @ zero_pad 2 (minute d) @ '':'' @ zero_pad 2 (second d)"
  have s: "matches iso8601_seconds ?s"
    unfolding iso8601_seconds_def
    by (intro matches_append y mo da ho mi se matches_lit)
  show ?thesis
  proof (cases "microsecond d = 0")
    case True
    with s show ?thesis by (simp add: is_iso8601_def isoformat_def)
  next
    case False
    have "matches (iso8601_seconds @ [Lit CHR ''.''] @ replicate 6 Digit)
            (?s @ ''.'' @ zero_pad 6 (microsecond d))"
      by (intro matches_append s mu matches_lit)
    with False show ?thesis by (simp add: is_iso8601_def isoformat_def)
  qed
qed

section \<open>Scheduling\<close>

lemma upstream_signals_Inr:
  "set us \<subseteq> dom sm \<Longrightarrow> upstream_signals sm us acc = Inr (acc @ map (\<lambda>u. the (sm u)) us)"
  by (induction us arbitrary: acc) auto

lemma upstream_signals_Inl:
  "\<not> set us \<subseteq> dom sm \<Longrightarrow> upstream_signals sm us acc = Inl AssertionError"
  by (induction us arbitrary: acc) (auto split: option.splits)

lemma init_dofn:
  assumes "ComponentAsDoFn_init c p ts h = (Inr d, h')"
  shows "launcher_pipeline_info (dofn_component_launcher d) = pipeline_info p"
    and "launcher_component (dofn_component_launcher d) = ref c"
    and "dofn_component_id d = component_id c"
  using assms
  by (auto simp: ComponentAsDoFn_init_def alloc_def Let_def
      split: pyobj.splits option.splits sum.splits prod.splits)

lemma schedule_component_missing:
  "\<not> set (upstream_nodes c) \<subseteq> dom (signal_map st) \<Longrightarrow>
   schedule_component p clock c st = (Some AssertionError, st)"
  by (simp add: schedule_component_def upstream_signals_Inl)

lemma schedule_component_None:
  assumes "schedule_component p clock c st = (None, st1)"
  shows "set (upstream_nodes c) \<subseteq> dom (signal_map st) \<and>
    (\<exists>d. launcher_pipeline_info (dofn_component_launcher d) = pipeline_info p \<and>
       launcher_component (dofn_component_launcher d) = ref c \<and>
       signal_map st1 = (signal_map st)(ref c \<mapsto>
          ParDo CreateRoot (''Run['' @ component_id c @ '']'') d
            (map (\<lambda>u. the (signal_map st u)) (upstream_nodes c))) \<and>
       transforms st1 = transforms st @
         [ParDo CreateRoot (''Run['' @ component_id c @ '']'') d
            (map (\<lambda>u. the (signal_map st u)) (upstream_nodes c))])"
proof (cases "set (upstream_nodes c) \<subseteq> dom (signal_map st)")
  case False
  with assms show ?thesis by (simp add: schedule_component_missing)
next
  case True
  obtain r h' where i: "ComponentAsDoFn_init c p (posix_seconds (clock (ticks st))) (heap st) = (r, h')"
    by (cases "ComponentAsDoFn_init c p (posix_seconds (clock (ticks st))) (heap st)")
  show ?thesis
  proof (cases r)
    case (Inl e)
    with assms True i show ?thesis
      by (simp add: schedule_component_def upstream_signals_Inr)
  next
    case (Inr d)
    with i have i': "ComponentAsDoFn_init c p (posix_seconds (clock (ticks st))) (heap st) = (Inr d, h')"
      by simp
    from assms True i' have "st1 = st\<lparr>heap := h',
                ticks := (if reads_clock p (heap st) then Suc (ticks st) else ticks st),
                signal_map := (signal_map st)(ref c \<mapsto> ParDo CreateRoot (''Run['' @ component_id c @ '']'') d
                   (map (\<lambda>u. the (signal_map st u)) (upstream_nodes c))),
                transforms := transforms st @ [ParDo CreateRoot (''Run['' @ component_id c @ '']'') d
                   (map (\<lambda>u. the (signal_map st u)) (upstream_nodes c))],
                logged := logged st @
                  [DependsOn (component_id c)
                    (map full_label (map (\<lambda>u. the (signal_map st u)) (upstream_nodes c))),
                   Scheduled (component_id c)]\<rparr>"
      by (simp add: schedule_component_def upstream_signals_Inr Let_def)
    then show ?thesis
      using True init_dofn(1,2) [OF i'] by (intro conjI exI [of _ d]) simp_all
  qed
qed

lemma schedule_component_Some:
  assumes "schedule_component p clock c st = (Some e, st1)"
  shows "signal_map st1 = signal_map st \<and> transforms st1 = transforms st"
proof (cases "set (upstream_nodes c) \<subseteq> dom (signal_map st)")
  case False
  with assms show ?thesis by (simp add: schedule_component_missing)
next
  case True
  with assms show ?thesis
    by (auto simp: schedule_component_def upstream_signals_Inr Let_def split: prod.splits sum.splits)
qed

lemma schedule_all_append:
  "schedule_all p clock (xs @ ys) st =
     (case schedule_all p clock xs st of
        (Some e, st') \<Rightarrow> (Some e, st')
      | (None, st') \<Rightarrow> schedule_all p clock ys st')"
  by (induction xs arbitrary: st) (auto split: prod.splits option.splits)

lemma schedule_all_dom:
  "schedule_all p clock cs st = (None, st') \<Longrightarrow>
   dom (signal_map st') = dom (signal_map st) \<union> ref ` set cs"
proof (induction cs arbitrary: st)
  case Nil
  then show ?case by simp
next
  case (Cons c cs)
  from Cons.prems obtain st1 where
    s: "schedule_component p clock c st = (None, st1)" and
    r: "schedule_all p clock cs st1 = (None, st')"
    by (auto split: prod.splits option.splits)
  from schedule_component_None [OF s] have "dom (signal_map st1) = insert (ref c) (dom (signal_map st))"
    by auto
  with Cons.IH [OF r] show ?case by auto
qed

text \<open>
  Claim C1. Let the components before \<open>c\<close> in the list have been scheduled, which leaves
  the state \<open>st\<close>; this is the moment \<open>c\<close> is processed. The signal map then holds
  exactly the entries it started with and those of the components before \<open>c\<close>. If an
  upstream node of \<open>c\<close> has no entry, the loop stops there with the assertion error and
  schedules nothing more. If the unit of \<open>c\<close> is scheduled, every upstream node of \<open>c\<close> had
  an entry in \<open>st\<close>, and the unit is a \<open>ParDo\<close> on the root whose side inputs are exactly
  the signals that \<open>st\<close> holds for the upstream nodes of \<open>c\<close>.
\<close>

theorem scheduling_respects_order:
  assumes "schedule_all p clock before st0 = (None, st)"
  shows "dom (signal_map st) = dom (signal_map st0) \<union> ref ` set before
    \<and> (\<not> set (upstream_nodes c) \<subseteq> dom (signal_map st) \<longrightarrow>
         schedule_all p clock (before @ c # rest) st0 = (Some AssertionError, st))
    \<and> (\<forall>st1. schedule_component p clock c st = (None, st1) \<longrightarrow>
         set (upstream_nodes c) \<subseteq> dom (signal_map st) \<and>
         (\<exists>d. launcher_component (dofn_component_launcher d) = ref c \<and>
            signal_map st1 (ref c) =
              Some (ParDo CreateRoot (''Run['' @ component_id c @ '']'') d
                      (map (\<lambda>u. the (signal_map st u)) (upstream_nodes c))) \<and>
            transforms st1 = transforms st @
              [ParDo CreateRoot (''Run['' @ component_id c @ '']'') d
                 (map (\<lambda>u. the (signal_map st u)) (upstream_nodes c))]))"
proof (intro conjI impI allI)
  show "dom (signal_map st) = dom (signal_map st0) \<union> ref ` set before"
    using assms by (rule schedule_all_dom)
next
  assume "\<not> set (upstream_nodes c) \<subseteq> dom (signal_map st)"
  then have "schedule_component p clock c st = (Some AssertionError, st)"
    by (rule schedule_component_missing)
  with assms show "schedule_all p clock (before @ c # rest) st0 = (Some AssertionError, st)"
    by (simp add: schedule_all_append)
next
  fix st1 assume s: "schedule_component p clock c st = (None, st1)"
  from schedule_component_None [OF s]
  show "set (upstream_nodes c) \<subseteq> dom (signal_map st)" by simp
  from schedule_component_None [OF s]
  obtain d where "launcher_component (dofn_component_launcher d) = ref c"
    and "signal_map st1 = (signal_map st)(ref c \<mapsto>
          ParDo CreateRoot (''Run['' @ component_id c @ '']'') d
            (map (\<lambda>u. the (signal_map st u)) (upstream_nodes c)))"
    and "transforms st1 = transforms st @
         [ParDo CreateRoot (''Run['' @ component_id c @ '']'') d
            (map (\<lambda>u. the (signal_map st u)) (upstream_nodes c))]"
    by blast
  then show "\<exists>d. launcher_component (dofn_component_launcher d) = ref c \<and>
            signal_map st1 (ref c) =
              Some (ParDo CreateRoot (''Run['' @ component_id c @ '']'') d
                      (map (\<lambda>u. the (signal_map st u)) (upstream_nodes c))) \<and>
            transforms st1 = transforms st @
              [ParDo CreateRoot (''Run['' @ component_id c @ '']'') d
                 (map (\<lambda>u. the (signal_map st u)) (upstream_nodes c))]"
    by (intro exI [of _ d]) simp
qed

lemma example_job_name_a: "component_job_name ''taxi'' ''a'' 1700000001 = ''taxi-a-1700000001''"
  by (simp add: component_job_name_def lower_def lower_char_def allowed_char_def
      ascii_digits_def ascii_lowercase_def ascii_uppercase_def str_int_def str_nat.simps digit_char_def)

lemma example_job_name_b: "component_job_name ''taxi'' ''b'' 1700000002 = ''taxi-b-1700000002''"
  by (simp add: component_job_name_def lower_def lower_char_def allowed_char_def
      ascii_digits_def ascii_lowercase_def ascii_uppercase_def str_int_def str_nat.simps digit_char_def)

lemmas example_defs =
  example_pipeline_def example_clock_def example_a_def example_b_def example_start_def
  example_heap_def example_component_def

lemmas eval_defs =
  schedule_component_def ComponentAsDoFn_init_def deref_def alloc_def iterate_def
  startswith_def job_name_arg_def reads_clock_def Let_def

lemma example_first:
  "fst (schedule_all example_pipeline example_clock [example_a] example_start) = None"
  by (simp add: example_defs eval_defs example_job_name_a)


lemma example_second:
  "fst (schedule_component example_pipeline example_clock example_b
         (snd (schedule_all example_pipeline example_clock [example_a] example_start))) = None"
  by (simp add: example_defs eval_defs example_job_name_a example_job_name_b)

theorem scheduling_respects_order_witness:
  "(\<exists>st. schedule_all example_pipeline example_clock [example_a] example_start = (None, st) \<and>
      dom (signal_map st) = {1} \<and>
      set (upstream_nodes example_b) \<subseteq> dom (signal_map st) \<and>
      (\<exists>st1 d. schedule_component example_pipeline example_clock example_b st = (None, st1) \<and>
         transforms st1 = transforms st @ [ParDo CreateRoot ''Run[b]'' d [the (signal_map st 1)]]))
   \<and> schedule_all example_pipeline example_clock [] example_start = (None, example_start)
   \<and> \<not> set (upstream_nodes example_b) \<subseteq> dom (signal_map example_start)
   \<and> schedule_all example_pipeline example_clock ([] @ example_b # [example_a]) example_start
       = (Some AssertionError, example_start)"
proof -
  let ?st = "snd (schedule_all example_pipeline example_clock [example_a] example_start)"
  let ?st1 = "snd (schedule_component example_pipeline example_clock example_b ?st)"
  have a: "schedule_all example_pipeline example_clock [example_a] example_start = (None, ?st)"
    using example_first by (simp add: prod_eq_iff)
  have b: "schedule_component example_pipeline example_clock example_b ?st = (None, ?st1)"
    using example_second by (simp add: prod_eq_iff)
  have n: "schedule_all example_pipeline example_clock [] example_start = (None, example_start)"
    by simp
  have m: "\<not> set (upstream_nodes example_b) \<subseteq> dom (signal_map example_start)"
    by (simp add: example_b_def example_start_def)
  from scheduling_respects_order [OF a, of example_b "[]"] b
  have 1: "dom (signal_map ?st) = {1}"
    and 2: "set (upstream_nodes example_b) \<subseteq> dom (signal_map ?st)"
    and 3: "\<exists>d. transforms ?st1 = transforms ?st @ [ParDo CreateRoot ''Run[b]'' d [the (signal_map ?st 1)]]"
    by (auto simp: example_start_def example_a_def example_b_def)
  from scheduling_respects_order [OF n, of example_b "[example_a]"] m
  have 4: "schedule_all example_pipeline example_clock ([] @ example_b # [example_a]) example_start
       = (Some AssertionError, example_start)"
    by blast
  from a b 1 2 3 n m 4 show ?thesis by blast
qed

section \<open>The run\<close>

text \<open>
  Claim C7. When \<open>TFX_JSON_EXPORT_PIPELINE_ARGS_PATH\<close> is set in the environment, \<open>run\<close>
  returns without an exception, with no unit applied to a Beam pipeline, nothing handed
  to the engine, no unit constructed (the heap is as it was) and the pipeline untouched.
\<close>

theorem export_mode_returns_early:
  assumes "environ ''TFX_JSON_EXPORT_PIPELINE_ARGS_PATH'' \<noteq> None"
  shows "fst (run environ clock args p h) = None
    \<and> result_scheduled (snd (run environ clock args p h)) = []
    \<and> \<not> result_submitted (snd (run environ clock args p h))
    \<and> result_heap (snd (run environ clock args p h)) = h
    \<and> result_pipeline (snd (run environ clock args p h)) = p
    \<and> result_logged (snd (run environ clock args p h)) = []"
  using assms by (simp add: run_def Let_def)

theorem export_mode_returns_early_witness:
  "example_environ ''TFX_JSON_EXPORT_PIPELINE_ARGS_PATH'' \<noteq> None
   \<and> fst (run example_environ example_clock [] example_pipeline example_heap) = None
   \<and> result_scheduled (snd (run example_environ example_clock [] example_pipeline example_heap)) = []
   \<and> \<not> result_submitted (snd (run example_environ example_clock [] example_pipeline example_heap))
   \<and> result_heap (snd (run example_environ example_clock [] example_pipeline example_heap)) = example_heap"
proof -
  have e: "example_environ ''TFX_JSON_EXPORT_PIPELINE_ARGS_PATH'' \<noteq> None"
    by (simp add: example_environ_def)
  from export_mode_returns_early [of example_environ example_clock "[]" example_pipeline example_heap, OF e] e
  show ?thesis by simp
qed

text \<open>
  Claim C9, as stated, fails in export mode: with the environment variable set, \<open>run\<close>
  returns before the assignment and the pipeline's run identifier stays unset.
\<close>

theorem run_id_unassigned_in_export_mode:
  "example_environ ''TFX_JSON_EXPORT_PIPELINE_ARGS_PATH'' \<noteq> None \<and>
   run_id (pipeline_info (result_pipeline
     (snd (run example_environ example_clock [] example_pipeline example_heap)))) = None"
  by (simp add: run_def Let_def example_environ_def example_pipeline_def)

lemma schedule_all_units:
  "schedule_all p clock cs st = (r, st') \<Longrightarrow> u \<in> set (transforms st') \<Longrightarrow>
   u \<in> set (transforms st) \<or>
   (\<exists>d. pvalue_dofn u = Some d \<and> launcher_pipeline_info (dofn_component_launcher d) = pipeline_info p)"
proof (induction cs arbitrary: st)
  case Nil
  then show ?case by simp
next
  case (Cons c cs)
  obtain r1 st1 where s: "schedule_component p clock c st = (r1, st1)"
    by (cases "schedule_component p clock c st")
  show ?case
  proof (cases r1)
    case (Some e)
    with s Cons.prems have "st' = st1" by simp
    with schedule_component_Some [of p clock c st e st1] s Some Cons.prems(2)
    show ?thesis by simp
  next
    case None
    with s Cons.prems have "schedule_all p clock cs st1 = (r, st')" by simp
    from Cons.IH [OF this Cons.prems(2)] schedule_component_None [of p clock c st st1] s None
    show ?thesis by auto
  qed
qed

text \<open>
  Claim C9, amended. When \<open>TFX_JSON_EXPORT_PIPELINE_ARGS_PATH\<close> is not set, \<open>run\<close> assigns
  to the pipeline the \<open>isoformat\<close> of a reading of the clock, a string of the ISO 8601
  shape, before the scheduling loop: the pipeline keeps it whether or not scheduling then
  succeeds, and every unit that is scheduled was built from a pipeline info that carries it.
\<close>

theorem run_id_assigned_before_scheduling:
  assumes "environ ''TFX_JSON_EXPORT_PIPELINE_ARGS_PATH'' = None"
    and "\<forall>n. valid_datetime (clock n)"
  shows "\<exists>t. t = (if list_ex (\<lambda>arg. startswith arg ''--job_name='') args then 0 else 1)
    \<and> run_id (pipeline_info (result_pipeline (snd (run environ clock args p h))))
        = Some (isoformat (clock t))
    \<and> is_iso8601 (isoformat (clock t))
    \<and> (\<forall>u \<in> set (result_scheduled (snd (run environ clock args p h))).
         \<exists>d. pvalue_dofn u = Some d \<and>
           run_id (launcher_pipeline_info (dofn_component_launcher d)) = Some (isoformat (clock t)))"
proof -
  let ?t = "if list_ex (\<lambda>arg. startswith arg ''--job_name='') args then 0 else (1::nat)"
  let ?p = "p\<lparr>pipeline_info := (pipeline_info p)\<lparr>run_id := Some (isoformat (clock ?t))\<rparr>\<rparr>"
  let ?st0 = "\<lparr> signal_map = Map.empty, transforms = [], heap = h, ticks = Suc ?t, logged = [] \<rparr>"
  obtain r st where s: "schedule_all ?p clock (components ?p) ?st0 = (r, st)"
    by (cases "schedule_all ?p clock (components ?p) ?st0")
  have res: "result_pipeline (snd (run environ clock args p h)) = ?p"
    and sch: "result_scheduled (snd (run environ clock args p h)) = transforms st"
    using assms(1) s by (auto simp: run_def Let_def split: prod.splits)
  have units: "\<exists>d. pvalue_dofn u = Some d \<and>
           run_id (launcher_pipeline_info (dofn_component_launcher d)) = Some (isoformat (clock ?t))"
    if "u \<in> set (transforms st)" for u
    using schedule_all_units [OF s that] by auto
  have "is_iso8601 (isoformat (clock ?t))"
    using assms(2) by (simp add: isoformat_is_iso8601)
  with res sch units show ?thesis by (intro exI [of _ ?t]) simp
qed

lemma example_job_name_trainer:
  "component_job_name ''taxi'' ''Trainer'' 1700000002 = ''taxi-trainer-1700000002''"
  by (simp add: component_job_name_def lower_def lower_char_def allowed_char_def
      ascii_digits_def ascii_lowercase_def ascii_uppercase_def str_int_def str_nat.simps digit_char_def)

lemma example_isoformat: "isoformat (example_clock n) = ''2023-11-14T22:13:20.250000''"
  by (simp add: isoformat_def zero_pad_def example_clock_def str_nat.simps digit_char_def
      ascii_digits_def)

lemma example_run_scheduled:
  "length (result_scheduled (snd (run Map.empty example_clock [] example_pipeline example_heap))) = 1"
  by (simp add: run_def example_defs eval_defs example_job_name_trainer split: prod.splits)

theorem run_id_assigned_before_scheduling_witness:
  "(\<forall>n. valid_datetime (example_clock n))
   \<and> run_id (pipeline_info (result_pipeline
        (snd (run Map.empty example_clock [] example_pipeline example_heap))))
      = Some ''2023-11-14T22:13:20.250000''
   \<and> is_iso8601 ''2023-11-14T22:13:20.250000''
   \<and> (\<exists>u d. result_scheduled (snd (run Map.empty example_clock [] example_pipeline example_heap)) = [u]
        \<and> pvalue_dofn u = Some d
        \<and> run_id (launcher_pipeline_info (dofn_component_launcher d))
            = Some ''2023-11-14T22:13:20.250000'')"
proof -
  let ?R = "snd (run Map.empty example_clock [] example_pipeline example_heap)"
  have v: "\<forall>n. valid_datetime (example_clock n)"
    by (simp add: valid_datetime_def example_clock_def)
  have e: "(Map.empty :: string \<rightharpoonup> string) ''TFX_JSON_EXPORT_PIPELINE_ARGS_PATH'' = None"
    by simp
  from run_id_assigned_before_scheduling [of Map.empty example_clock "[]" example_pipeline example_heap, OF e v]
  have 1: "run_id (pipeline_info (result_pipeline ?R)) = Some ''2023-11-14T22:13:20.250000''"
    and 2: "is_iso8601 ''2023-11-14T22:13:20.250000''"
    and 3: "\<forall>u \<in> set (result_scheduled ?R). \<exists>d. pvalue_dofn u = Some d \<and>
           run_id (launcher_pipeline_info (dofn_component_launcher d)) = Some ''2023-11-14T22:13:20.250000''"
    by (simp_all add: example_isoformat)
  from example_run_scheduled obtain u where u: "result_scheduled ?R = [u]"
    by (cases "result_scheduled ?R") auto
  with 3 obtain d where "pvalue_dofn u = Some d"
    and "run_id (launcher_pipeline_info (dofn_component_launcher d)) = Some ''2023-11-14T22:13:20.250000''"
    by auto
  with v 1 2 u show ?thesis by blast
qed

section \<open>Properties of the graph builder\<close>


declare toposort.simps [simp del]

lemma set_dedup: "set (dedup ns) = set ns"
  by (simp add: dedup_def)

lemma distinct_dedup: "distinct (dedup ns)"
  by (simp add: dedup_def)

lemma dedup_idem: "dedup (dedup ns) = dedup ns"
  by (simp add: dedup_def distinct_remdups_id)

lemma dedup_distinct_id: "distinct ns \<Longrightarrow> dedup ns = ns"
  by (simp add: dedup_def distinct_remdups_id)

lemma first_duplicate_None: "first_duplicate xs = None \<longleftrightarrow> distinct xs"
  by (induction xs) auto

lemma edges_dedup: "edges store (dedup ns) = edges store ns"
  by (simp add: edges_def set_dedup)

lemma toposort_Inr:
  "toposort store remaining = Inr cs \<Longrightarrow> set cs = set remaining \<and> distinct cs"
proof (induction store remaining arbitrary: cs rule: toposort.induct)
  case (1 store remaining)
  show ?case
  proof (cases "find (zero_indegree store remaining) remaining")
    case None
    with "1.prems" show ?thesis
      by (simp add: toposort.simps [of store remaining] split: if_splits)
  next
    case (Some v)
    then have v: "v \<in> set remaining" by (auto simp: find_Some_iff)
    from "1.prems" Some obtain rest where
      r: "toposort store (removeAll v remaining) = Inr rest" and cs: "cs = v # rest"
      by (auto simp: toposort.simps [of store remaining] split: sum.splits)
    from "1.IH" [OF Some r] have "set rest = set remaining - {v}" and "distinct rest"
      by auto
    with v cs show ?thesis by auto
  qed
qed


lemma zero_indegree_no_edge:
  "zero_indegree store remaining v \<Longrightarrow> (x, v) \<notin> edges store remaining"
  by (auto simp: zero_indegree_def edges_def list_all_iff)

lemma edges_removeAll:
  "edges store (removeAll v remaining) = {(x, y). (x, y) \<in> edges store remaining \<and> x \<noteq> v \<and> y \<noteq> v}"
  by (auto simp: edges_def)

lemma trancl_avoid:
  assumes "\<And>x. (x, v) \<notin> E" and "(a, b) \<in> E\<^sup>+" and "a \<noteq> v"
  shows "(a, b) \<in> {(x, y). (x, y) \<in> E \<and> x \<noteq> v \<and> y \<noteq> v}\<^sup>+"
  using assms(2)
proof (induction rule: trancl_induct)
  case (base y)
  with assms(1,3) have "(a, y) \<in> {(x, y). (x, y) \<in> E \<and> x \<noteq> v \<and> y \<noteq> v}"
    by auto
  then show ?case by (rule r_into_trancl)
next
  case (step y z)
  from step.hyps(1) obtain x where "(x, y) \<in> E" by (auto dest: tranclD2)
  with assms(1) have "y \<noteq> v" by auto
  moreover from step.hyps(2) assms(1) have "z \<noteq> v" by auto
  ultimately have "(y, z) \<in> {(x, y). (x, y) \<in> E \<and> x \<noteq> v \<and> y \<noteq> v}"
    using step.hyps(2) by auto
  with step.IH show ?case by (rule trancl_into_trancl)
qed

lemma cycle_survives:
  assumes "zero_indegree store remaining v" and "(w, w) \<in> (edges store remaining)\<^sup>+"
  shows "(w, w) \<in> (edges store (removeAll v remaining))\<^sup>+"
proof -
  have no: "\<And>x. (x, v) \<notin> edges store remaining"
    using assms(1) by (rule zero_indegree_no_edge)
  from assms(2) obtain x where "(x, w) \<in> edges store remaining" by (auto dest: tranclD2)
  with no have "w \<noteq> v" by auto
  from trancl_avoid [OF no assms(2) this] show ?thesis
    by (simp add: edges_removeAll)
qed

lemma edges_removeAll_subset: "edges store (removeAll v remaining) \<subseteq> edges store remaining"
  by (auto simp: edges_def)


lemma stuck_step:
  assumes "find (zero_indegree store remaining) remaining = None" and "v \<in> set remaining"
  shows "(unprocessed_producer store remaining v, v) \<in> edges store remaining"
proof -
  from assms have "\<not> zero_indegree store remaining v"
    by (auto simp: find_None_iff)
  then obtain u where "u \<in> set (producers store v)" and "u \<in> set remaining"
    by (auto simp: zero_indegree_def list_all_iff)
  then have "filter (\<lambda>u. u \<in> set remaining) (producers store v) \<noteq> []"
    by (auto simp: filter_empty_conv)
  then obtain u' us where f: "filter (\<lambda>u. u \<in> set remaining) (producers store v) = u' # us"
    by (cases "filter (\<lambda>u. u \<in> set remaining) (producers store v)") auto
  then have "u' \<in> set (filter (\<lambda>u. u \<in> set remaining) (producers store v))" by simp
  then have "u' \<in> set remaining" and "u' \<in> set (producers store v)" by auto
  with f assms(2) show ?thesis
    by (simp add: unprocessed_producer_def edges_def)
qed

lemma stuck_iter:
  assumes "find (zero_indegree store remaining) remaining = None" and "v \<in> set remaining"
  shows "(unprocessed_producer store remaining ^^ k) v \<in> set remaining"
proof (induction k)
  case 0
  with assms(2) show ?case by simp
next
  case (Suc k)
  from stuck_step [OF assms(1) Suc] show ?case by (simp add: edges_def)
qed

lemma stuck_path:
  assumes "find (zero_indegree store remaining) remaining = None" and "v \<in> set remaining"
  shows "((unprocessed_producer store remaining ^^ Suc k) v, v) \<in> (edges store remaining)\<^sup>+"
proof (induction k)
  case 0
  from stuck_step [OF assms] show ?case by auto
next
  case (Suc k)
  have "(unprocessed_producer store remaining ^^ Suc k) v \<in> set remaining"
    using assms by (rule stuck_iter)
  from stuck_step [OF assms(1) this]
  have "((unprocessed_producer store remaining ^^ Suc (Suc k)) v,
         (unprocessed_producer store remaining ^^ Suc k) v) \<in> edges store remaining"
    by simp
  from this Suc show ?case by (rule trancl_into_trancl2)
qed

lemma walk_repeats:
  assumes "\<And>k. (f ^^ k) x \<in> set remaining"
  shows "\<exists>i j. i < j \<and> j \<le> length remaining \<and> (f ^^ i) x = (f ^^ j) x"
proof -
  let ?g = "\<lambda>k. (f ^^ k) x"
  have "?g ` {0..length remaining} \<subseteq> set remaining" using assms by auto
  then have "card (?g ` {0..length remaining}) \<le> card (set remaining)"
    by (simp add: card_mono)
  also have "\<dots> \<le> length remaining" by (rule card_length)
  finally have "card (?g ` {0..length remaining}) < card {0..length remaining}" by simp
  then have "\<not> inj_on ?g {0..length remaining}" by (rule pigeonhole)
  then obtain a b where ab: "a \<le> length remaining" "b \<le> length remaining" "a \<noteq> b" "?g a = ?g b"
    by (auto simp: inj_on_def)
  show ?thesis
  proof (cases "a < b")
    case True
    with ab show ?thesis by blast
  next
    case False
    with ab have "b < a" by simp
    with ab show ?thesis by metis
  qed
qed

lemma funpow_funpow: "(f ^^ a) ((f ^^ b) x) = (f ^^ (a + b)) x"
  by (simp add: funpow_add)

lemma walk_periodic:
  assumes "i < j" and "j \<le> n" and "(f ^^ i) x = (f ^^ j) x"
  shows "(f ^^ (j - i)) ((f ^^ n) x) = (f ^^ n) x"
proof -
  obtain p q where j: "j = p + i" and n: "n = q + i" and p: "j - i = p"
    using assms(1,2) by (metis add_diff_cancel_right' le_add_diff_inverse2 less_imp_le_nat order_trans)
  have "(f ^^ p) ((f ^^ (q + i)) x) = (f ^^ (p + (q + i))) x"
    by (rule funpow_funpow)
  also have "p + (q + i) = q + (p + i)" by simp
  also have "(f ^^ (q + (p + i))) x = (f ^^ q) ((f ^^ (p + i)) x)"
    by (rule funpow_funpow [symmetric])
  also have "(f ^^ (p + i)) x = (f ^^ i) x" using assms(3) j by simp
  also have "(f ^^ q) ((f ^^ i) x) = (f ^^ (q + i)) x"
    by (rule funpow_funpow)
  finally show ?thesis using n p by simp
qed

lemma node_on_cycle_correct:
  assumes "find (zero_indegree store remaining) remaining = None" and "remaining \<noteq> []"
  shows "(node_on_cycle store remaining, node_on_cycle store remaining) \<in> (edges store remaining)\<^sup>+"
proof -
  let ?f = "unprocessed_producer store remaining"
  from assms(2) obtain v vs where r: "remaining = v # vs" by (cases remaining) auto
  then have v: "v \<in> set remaining" by simp
  let ?y = "(?f ^^ length remaining) v"
  have y: "node_on_cycle store remaining = ?y"
    by (simp add: node_on_cycle_def r)
  have "\<And>k. (?f ^^ k) v \<in> set remaining" using assms(1) v by (rule stuck_iter)
  from walk_repeats [of ?f v remaining, OF this]
  obtain i j where ij: "i < j" "j \<le> length remaining" "(?f ^^ i) v = (?f ^^ j) v"
    by blast
  from walk_periodic [OF ij] have p: "(?f ^^ (j - i)) ?y = ?y" .
  from ij(1) obtain k where k: "j - i = Suc k" by (cases "j - i") auto
  have "?y \<in> set remaining" using assms(1) v by (rule stuck_iter)
  from stuck_path [OF assms(1) this, of k] p k
  have "(?y, ?y) \<in> (edges store remaining)\<^sup>+" by simp
  with y show ?thesis by simp
qed

lemma toposort_cycle:
  "(w, w) \<in> (edges store remaining)\<^sup>+ \<Longrightarrow>
   \<exists>n. toposort store remaining = Inl (CycleDetected n) \<and> (n, n) \<in> (edges store remaining)\<^sup>+"
proof (induction store remaining rule: toposort.induct)
  case (1 store remaining)
  show ?case
  proof (cases "find (zero_indegree store remaining) remaining")
    case None
    from "1.prems" have "remaining \<noteq> []"
      by (auto simp: edges_def dest: tranclD)
    with None node_on_cycle_correct [OF None this] show ?thesis
      by (simp add: toposort.simps [of store remaining])
  next
    case (Some v)
    then have "zero_indegree store remaining v" by (auto simp: find_Some_iff)
    from cycle_survives [OF this "1.prems"] "1.IH" [OF Some]
    obtain n where t: "toposort store (removeAll v remaining) = Inl (CycleDetected n)"
      and n: "(n, n) \<in> (edges store (removeAll v remaining))\<^sup>+"
      by blast
    from n have "(n, n) \<in> (edges store remaining)\<^sup>+"
      using trancl_mono [OF _ edges_removeAll_subset] by blast
    with t Some show ?thesis
      by (simp add: toposort.simps [of store remaining])
  qed
qed

section \<open>Pipeline construction\<close>

lemma first_duplicate_Some: "\<not> distinct xs \<Longrightarrow> \<exists>i. first_duplicate xs = Some i"
  using first_duplicate_None [of xs] by (cases "first_duplicate xs") auto

text \<open>
  Claim C3, amended. A collection of nodes with a dependency cycle through two different
  nodes never yields a component list: construction fails with \<open>CycleDetected\<close>, naming a
  node that lies on a cycle, when the identities of the deduplicated nodes are distinct,
  and with \<open>DuplicateNodeIdentity\<close> otherwise, since identities are checked before the sort.
\<close>

theorem cycle_fails_construction:
  assumes "u \<noteq> v" and "(u, v) \<in> (edges store ns)\<^sup>+" and "(v, u) \<in> (edges store ns)\<^sup>+"
  shows "if distinct (map (\<lambda>n. identity (store n)) (dedup ns))
         then \<exists>n. build store ns = Inl (CycleDetected n) \<and> (n, n) \<in> (edges store ns)\<^sup>+
         else \<exists>i. build store ns = Inl (DuplicateNodeIdentity i)"
proof (cases "distinct (map (\<lambda>n. identity (store n)) (dedup ns))")
  case True
  then have f: "first_duplicate (map (\<lambda>n. identity (store n)) (dedup ns)) = None"
    by (simp add: first_duplicate_None)
  from assms(2,3) have "(u, u) \<in> (edges store (dedup ns))\<^sup>+"
    by (simp add: edges_dedup)
  from toposort_cycle [OF this] f True show ?thesis
    by (simp add: build_def Let_def edges_dedup)
next
  case False
  from first_duplicate_Some [OF this] False show ?thesis
    by (auto simp: build_def Let_def)
qed

text \<open>
  Claim C4. When two different nodes of the collection have the same identity,
  construction fails with \<open>DuplicateNodeIdentity\<close>.
\<close>

theorem duplicate_identity_fails_construction:
  assumes "u \<in> set ns" and "v \<in> set ns" and "u \<noteq> v"
    and "identity (store u) = identity (store v)"
  shows "\<exists>i. build store ns = Inl (DuplicateNodeIdentity i)"
proof -
  from assms have "\<not> inj_on (\<lambda>n. identity (store n)) (set (dedup ns))"
    by (auto simp: inj_on_def set_dedup)
  then have "\<not> distinct (map (\<lambda>n. identity (store n)) (dedup ns))"
    by (simp add: distinct_map)
  from first_duplicate_Some [OF this] show ?thesis
    by (auto simp: build_def Let_def)
qed

text \<open>
  Claim C8. Construction gives the same result on a collection and on the collection with
  repeated references removed; a component list it returns holds every node of the
  collection exactly once, and no identity twice.
\<close>

theorem build_deduplicates:
  "build store ns = build store (dedup ns)
   \<and> (\<forall>cs. build store ns = Inr cs \<longrightarrow>
         distinct (map (\<lambda>n. identity (store n)) cs) \<and> distinct cs \<and> set cs = set ns)"
proof (intro conjI allI impI)
  show "build store ns = build store (dedup ns)"
    by (simp add: build_def Let_def dedup_idem)
next
  fix cs assume b: "build store ns = Inr cs"
  then have f: "first_duplicate (map (\<lambda>n. identity (store n)) (dedup ns)) = None"
    and t: "toposort store (dedup ns) = Inr cs"
    by (auto simp: build_def Let_def split: option.splits)
  from toposort_Inr [OF t] show "distinct cs" and s: "set cs = set ns"
    by (simp_all add: set_dedup)
  from f have "inj_on (\<lambda>n. identity (store n)) (set (dedup ns))"
    by (simp add: first_duplicate_None distinct_map)
  with toposort_Inr [OF t] show "distinct (map (\<lambda>n. identity (store n)) cs)"
    by (simp add: distinct_map)
qed

lemmas graph_eval =
  build_def Let_def dedup_def toposort.simps zero_indegree_def producers_def
  List.map_filter_def output_of_def node_on_cycle_def unprocessed_producer_def

lemma loop_edges:
  "(1, 2) \<in> edges (loop_store ids) [2, 3, 1, 0]"
  "(2, 3) \<in> edges (loop_store ids) [2, 3, 1, 0]"
  "(3, 1) \<in> edges (loop_store ids) [2, 3, 1, 0]"
  by (simp_all add: edges_def producers_def loop_store_def output_of_def List.map_filter_def)

lemma loop_cycle:
  "(1, 2) \<in> (edges (loop_store ids) [2, 3, 1, 0])\<^sup>+"
  "(2, 1) \<in> (edges (loop_store ids) [2, 3, 1, 0])\<^sup>+"
proof -
  show "(1, 2) \<in> (edges (loop_store ids) [2, 3, 1, 0])\<^sup>+"
    using loop_edges(1) by (rule r_into_trancl)
  have "(2, 3) \<in> (edges (loop_store ids) [2, 3, 1, 0])\<^sup>+"
    using loop_edges(2) by (rule r_into_trancl)
  then show "(2, 1) \<in> (edges (loop_store ids) [2, 3, 1, 0])\<^sup>+"
    using loop_edges(3) by (rule trancl_into_trancl)
qed

lemma loop_test_build:
  "build (loop_store test_ids) [2, 3, 1, 0] = Inl (DuplicateNodeIdentity ''component_b'')"
  by (simp add: graph_eval loop_store_def test_ids_def)

lemma loop_distinct_build:
  "build (loop_store distinct_ids) [2, 3, 1, 0] = Inl (CycleDetected 2)"
  by (simp add: graph_eval loop_store_def distinct_ids_def)

lemma dag_build: "build dag_store [3, 2, 0, 1, 4, 0] = Inr [0, 2, 1, 3, 4]"
  by (simp add: graph_eval dag_store_def)

lemma same_build: "build same_store [2, 1, 0] = Inl (DuplicateNodeIdentity ''component_a'')"
  by (simp add: graph_eval same_store_def)


text \<open>
  Claim C3, as stated, fails on the pipeline of \<open>testPipelineWithLoop\<close>: three of its nodes
  share the identity \<open>component_b\<close> and lie on a cycle, and construction fails with
  \<open>DuplicateNodeIdentity\<close>, not with \<open>CycleDetected\<close>.
\<close>

theorem cycle_with_duplicate_identities:
  "(1::nat) \<noteq> 2
   \<and> (1, 2) \<in> (edges (loop_store test_ids) [2, 3, 1, 0])\<^sup>+
   \<and> (2, 1) \<in> (edges (loop_store test_ids) [2, 3, 1, 0])\<^sup>+
   \<and> build (loop_store test_ids) [2, 3, 1, 0] = Inl (DuplicateNodeIdentity ''component_b'')
   \<and> \<not> (\<exists>n. build (loop_store test_ids) [2, 3, 1, 0] = Inl (CycleDetected n))"
  using loop_cycle [of test_ids] loop_test_build by simp

theorem cycle_fails_construction_witness:
  "(1::nat) \<noteq> 2
   \<and> (1, 2) \<in> (edges (loop_store distinct_ids) [2, 3, 1, 0])\<^sup>+
   \<and> (2, 1) \<in> (edges (loop_store distinct_ids) [2, 3, 1, 0])\<^sup>+
   \<and> distinct (map (\<lambda>n. identity (loop_store distinct_ids n)) (dedup [2, 3, 1, 0]))
   \<and> build (loop_store distinct_ids) [2, 3, 1, 0] = Inl (CycleDetected 2)
   \<and> (2, 2) \<in> (edges (loop_store distinct_ids) [2, 3, 1, 0])\<^sup>+
   \<and> \<not> distinct (map (\<lambda>n. identity (loop_store test_ids n)) (dedup [2, 3, 1, 0]))
   \<and> (\<exists>i. build (loop_store test_ids) [2, 3, 1, 0] = Inl (DuplicateNodeIdentity i))"
proof -
  have ne: "(1::nat) \<noteq> 2" by simp
  have d: "distinct (map (\<lambda>n. identity (loop_store distinct_ids n)) (dedup [2, 3, 1, 0]))"
    by (simp add: dedup_def loop_store_def distinct_ids_def)
  have nd: "\<not> distinct (map (\<lambda>n. identity (loop_store test_ids n)) (dedup [2, 3, 1, 0]))"
    by (simp add: dedup_def loop_store_def test_ids_def)
  from cycle_fails_construction [OF ne loop_cycle, of distinct_ids] d loop_distinct_build
  have 1: "(2, 2) \<in> (edges (loop_store distinct_ids) [2, 3, 1, 0])\<^sup>+" by simp
  from cycle_fails_construction [OF ne loop_cycle, of test_ids] nd
  have 2: "\<exists>i. build (loop_store test_ids) [2, 3, 1, 0] = Inl (DuplicateNodeIdentity i)" by simp
  from ne loop_cycle [of distinct_ids] d loop_distinct_build nd 1 2 show ?thesis by simp
qed

theorem duplicate_identity_fails_construction_witness:
  "(2::nat) \<in> set [2, 1, 0] \<and> (1::nat) \<in> set [2, 1, 0] \<and> (2::nat) \<noteq> 1
   \<and> identity (same_store 2) = identity (same_store 1)
   \<and> build same_store [2, 1, 0] = Inl (DuplicateNodeIdentity ''component_a'')"
proof -
  have a: "(2::nat) \<in> set [2, 1, 0]" and b: "(1::nat) \<in> set [2, 1, 0]" and c: "(2::nat) \<noteq> 1"
    and d: "identity (same_store 2) = identity (same_store 1)"
    by (simp_all add: same_store_def)
  from duplicate_identity_fails_construction [OF a b c d] a b c d same_build
  show ?thesis by simp
qed

theorem build_deduplicates_witness:
  "build dag_store [3, 2, 0, 1, 4, 0] = build dag_store (dedup [3, 2, 0, 1, 4, 0])
   \<and> dedup [3, 2, 0, 1, 4, 0] = [3, 2, 0, 1, 4]
   \<and> build dag_store [3, 2, 0, 1, 4, 0] = Inr [0, 2, 1, 3, 4]
   \<and> distinct (map (\<lambda>n. identity (dag_store n)) [0, 2, 1, 3, 4])
   \<and> set [0, 2, 1, 3, 4] = set [3, 2, 0, 1, 4, 0::nat]"
proof -
  note t = build_deduplicates [of dag_store "[3, 2, 0, 1, 4, 0]"]
  from t have "build dag_store [3, 2, 0, 1, 4, 0] = build dag_store (dedup [3, 2, 0, 1, 4, 0])"
    by (rule conjunct1)
  moreover from t dag_build
  have "distinct (map (\<lambda>n. identity (dag_store n)) [0, 2, 1, 3, 4])
        \<and> set [0, 2, 1, 3, 4] = set [3, 2, 0, 1, 4, 0::nat]"
    by blast
  moreover have "dedup [3, 2, 0, 1, 4, 0] = [3, 2, 0, 1, 4]"
    by (simp add: dedup_def)
  ultimately show ?thesis using dag_build by blast
qed

end
